theory Spec2Isabelle
  imports Complex_Main "HOL-Library.Sublist"
begin

section \<open>Strings of the host language\<close>

text \<open>
  A string of the program is a sequence of UTF-16 code units. A code unit is modelled as a
  natural number, a string as a list of them. The literals of the source are written with
  \<open>str\<close>, which maps each character of an ASCII literal to its code.
\<close>

type_synonym cu = nat
type_synonym jsstring = "cu list"

definition str :: "string \<Rightarrow> jsstring" where
  "str = map of_char"

text \<open>The en-dash separator of the source: U+2013 between two spaces.\<close>

definition en_dash_sep :: jsstring where
  "en_dash_sep = [32, 8211, 32]"

text \<open>
  White space and line terminators as \<open>String.prototype.trim\<close> and the class \<open>\s\<close> see
  them: TAB, LF, VT, FF, CR, SP, NBSP, U+1680, U+2000 to U+200A, U+2028, U+2029, U+202F,
  U+205F, U+3000 and U+FEFF.
\<close>

definition isWhiteSpace :: "cu \<Rightarrow> bool" where
  "isWhiteSpace x \<longleftrightarrow>
     (9 \<le> x \<and> x \<le> 13) \<or> x = 32 \<or> x = 160 \<or> x = 5760 \<or> (8192 \<le> x \<and> x \<le> 8202) \<or>
     x = 8232 \<or> x = 8233 \<or> x = 8239 \<or> x = 8287 \<or> x = 12288 \<or> x = 65279"

definition isLineTerminator :: "cu \<Rightarrow> bool" where
  "isLineTerminator x \<longleftrightarrow> x = 10 \<or> x = 13 \<or> x = 8232 \<or> x = 8233"

definition isDigit :: "cu \<Rightarrow> bool" where
  "isDigit x \<longleftrightarrow> 48 \<le> x \<and> x \<le> 57"

definition isAlnum :: "cu \<Rightarrow> bool" where
  "isAlnum x \<longleftrightarrow> (65 \<le> x \<and> x \<le> 90) \<or> (97 \<le> x \<and> x \<le> 122) \<or> (48 \<le> x \<and> x \<le> 57)"

definition trim :: "jsstring \<Rightarrow> jsstring" where
  "trim s = rev (dropWhile isWhiteSpace (rev (dropWhile isWhiteSpace s)))"

definition startsWith :: "jsstring \<Rightarrow> jsstring \<Rightarrow> bool" where
  "startsWith s p = prefix p s"

definition endsWith :: "jsstring \<Rightarrow> jsstring \<Rightarrow> bool" where
  "endsWith s p = suffix p s"

fun includes_js :: "jsstring \<Rightarrow> jsstring \<Rightarrow> bool" where
  "includes_js [] sep = (sep = [])"
| "includes_js (x # xs) sep = (prefix sep (x # xs) \<or> includes_js xs sep)"

text \<open>
  \<open>s.split(sep)\<close> for a non-empty separator: the pieces between the occurrences of \<open>sep\<close>,
  found from left to right without overlap. \<open>cur\<close> is the piece being read.
\<close>

fun split_from :: "jsstring \<Rightarrow> jsstring \<Rightarrow> jsstring \<Rightarrow> jsstring list" where
  "split_from sep cur [] = [cur]"
| "split_from sep cur (x # xs) =
     (if sep \<noteq> [] \<and> prefix sep (x # xs)
      then cur # split_from sep [] (drop (length sep - 1) xs)
      else split_from sep (cur @ [x]) xs)"

definition split :: "jsstring \<Rightarrow> jsstring \<Rightarrow> jsstring list" where
  "split s sep = split_from sep [] s"

text \<open>\<open>s.replace(pat, '')\<close> with a string pattern: the first occurrence is removed.\<close>

fun remove_first :: "jsstring \<Rightarrow> jsstring \<Rightarrow> jsstring" where
  "remove_first pat [] = []"
| "remove_first pat (x # xs) =
     (if prefix pat (x # xs) then drop (length pat) (x # xs) else x # remove_first pat xs)"

section \<open>Errors\<close>

text \<open>
  What the program can throw. \<open>AbortError\<close>, \<open>PlatformError\<close> and \<open>NonError\<close> are what the
  platform's \<open>fetch\<close> and \<open>text\<close> reject with (an \<open>Error\<close> named \<open>AbortError\<close>, any other
  \<open>Error\<close>, a value that is no \<open>Error\<close>); \<open>URIError\<close> and \<open>TypeError\<close> come from the
  string builtins; the others are the \<open>new Error(...)\<close> of the source.
\<close>

datatype error =
    ConfigError
  | HttpError nat
  | RequestTimeout
  | RequestFailed
  | AbortError
  | PlatformError
  | NonError
  | URIError
  | TypeError

section \<open>The client and its constructor\<close>

record AmazonMusicConfig =
  apiUrl :: jsstring
  searchLimit :: "int option"
  timeout :: "int option"

record AmazonMusicClient =
  baseUrl :: jsstring
  client_searchLimit :: int
  client_timeout :: int

text \<open>
  The constructor. An option that is absent is \<open>None\<close>; the tests \<open>config.searchLimit ? ...\<close>
  and \<open>config.timeout || 10000\<close> take the default for an absent option and for \<open>0\<close>.
\<close>

definition new_client :: "AmazonMusicConfig \<Rightarrow> error + AmazonMusicClient" where
  "new_client config =
     (if apiUrl config = [] \<or> trim (apiUrl config) = [] then Inl ConfigError
      else Inr \<lparr>
        baseUrl = (if endsWith (apiUrl config) (str ''/'')
                   then take (length (apiUrl config) - 1) (apiUrl config)
                   else apiUrl config),
        client_searchLimit = (case searchLimit config of
                                None \<Rightarrow> 5
                              | Some n \<Rightarrow> if n \<noteq> 0 then max 1 (min n 10) else 5),
        client_timeout = (case timeout config of
                            None \<Rightarrow> 10000
                          | Some t \<Rightarrow> if t \<noteq> 0 then t else 10000) \<rparr>)"

definition getSearchLimit :: "AmazonMusicClient \<Rightarrow> int" where
  "getSearchLimit c = client_searchLimit c"

definition getBaseUrl :: "AmazonMusicClient \<Rightarrow> jsstring" where
  "getBaseUrl c = baseUrl c"

section \<open>Regular expressions\<close>

text \<open>
  The patterns of the source are regular-expression literals. They are kept as syntax trees
  and run by a backtracking matcher that returns every way to match, in the order in which
  the host's matcher tries them (a greedy repetition longest first, a lazy one shortest
  first, the alternatives of \<open>|\<close> from left to right, an optional part taken before it is
  skipped). The first element of the list is the match the host reports. Every repetition
  in the source ranges over a single character class, so \<open>Star\<close>, \<open>Plus\<close> and
  \<open>LazyStar\<close> take the class. A match state is the rest of the input with the capture
  groups recorded so far.
\<close>

datatype re =
    Eps
  | Chr "cu \<Rightarrow> bool"
  | Seq re re
  | Alt re re
  | Opt re
  | Star "cu \<Rightarrow> bool"
  | Plus "cu \<Rightarrow> bool"
  | LazyStar "cu \<Rightarrow> bool"
  | Grp nat re
  | Eos

type_synonym captures = "(nat \<times> jsstring) list"
type_synonym mstate = "jsstring \<times> captures"

fun rmatch :: "re \<Rightarrow> mstate \<Rightarrow> mstate list" where
  "rmatch Eps st = [st]"
| "rmatch (Chr p) (s, c) = (case s of [] \<Rightarrow> [] | x # xs \<Rightarrow> if p x then [(xs, c)] else [])"
| "rmatch (Seq a b) st = concat (map (rmatch b) (rmatch a st))"
| "rmatch (Alt a b) st = rmatch a st @ rmatch b st"
| "rmatch (Opt a) st = rmatch a st @ [st]"
| "rmatch (Star p) (s, c) =
     map (\<lambda>k. (drop k s, c)) (rev [0 ..< Suc (length (takeWhile p s))])"
| "rmatch (Plus p) (s, c) =
     map (\<lambda>k. (drop k s, c)) (rev [1 ..< Suc (length (takeWhile p s))])"
| "rmatch (LazyStar p) (s, c) =
     map (\<lambda>k. (drop k s, c)) [0 ..< Suc (length (takeWhile p s))]"
| "rmatch (Grp n a) (s, c) =
     map (\<lambda>(s', c'). (s', (n, take (length s - length s') s) # c')) (rmatch a (s, c))"
| "rmatch Eos (s, c) = (if s = [] then [(s, c)] else [])"

text \<open>The match that starts at the head of the input, if there is one.\<close>

definition match_here :: "re \<Rightarrow> jsstring \<Rightarrow> mstate option" where
  "match_here r s = (case rmatch r (s, []) of [] \<Rightarrow> None | st # _ \<Rightarrow> Some st)"

text \<open>
  \<open>pattern.exec(s)\<close> and \<open>s.match(pattern)\<close> for a pattern without the \<open>g\<close> flag: the
  match at the leftmost position that has one, the end of the input included.
\<close>

fun re_exec :: "re \<Rightarrow> jsstring \<Rightarrow> captures option" where
  "re_exec r [] = map_option snd (match_here r [])"
| "re_exec r (x # xs) =
     (case match_here r (x # xs) of Some st \<Rightarrow> Some (snd st) | None \<Rightarrow> re_exec r xs)"

text \<open>
  The loop \<open>while ((match = pattern.exec(s)) !== null)\<close> over a pattern with the \<open>g\<close>
  flag: the successive matches, each search starting where the match before ended. The
  first argument counts the code units still covered by the match before. The two patterns
  run this way begin with a literal, so that a match is never empty and none starts at the
  end of the input.
\<close>

fun exec_all_from :: "nat \<Rightarrow> re \<Rightarrow> jsstring \<Rightarrow> captures list" where
  "exec_all_from k r [] = []"
| "exec_all_from (Suc k) r (x # xs) = exec_all_from k r xs"
| "exec_all_from 0 r (x # xs) =
     (case match_here r (x # xs) of
        None \<Rightarrow> exec_all_from 0 r xs
      | Some (rest, c) \<Rightarrow> c # exec_all_from (length xs - length rest) r xs)"

definition exec_all :: "re \<Rightarrow> jsstring \<Rightarrow> captures list" where
  "exec_all r s = exec_all_from 0 r s"

text \<open>Capture group \<open>n\<close> of a match; \<open>None\<close> is the host's \<open>undefined\<close>.\<close>

definition group :: "captures \<Rightarrow> nat \<Rightarrow> jsstring option" where
  "group c n = map_of c n"

text \<open>
  Under the \<open>i\<close> flag two code units match when they canonicalise to the same one. The
  canonical form is the upper-case one, except that a code unit outside ASCII never
  canonicalises to an ASCII one; the patterns of the source hold ASCII only, so only the
  ASCII letters fold.
\<close>

definition canonicalize :: "cu \<Rightarrow> cu" where
  "canonicalize x = (if 97 \<le> x \<and> x \<le> 122 then x - 32 else x)"

definition seqs :: "re list \<Rightarrow> re" where
  "seqs rs = foldr Seq rs Eps"

definition alts :: "re list \<Rightarrow> re" where
  "alts rs = foldr Alt (butlast rs) (last rs)"

definition lit :: "jsstring \<Rightarrow> re" where
  "lit w = seqs (map (\<lambda>a. Chr (\<lambda>x. x = a)) w)"

definition lit_i :: "jsstring \<Rightarrow> re" where
  "lit_i w = seqs (map (\<lambda>a. Chr (\<lambda>x. canonicalize x = canonicalize a)) w)"

definition none_of :: "jsstring \<Rightarrow> cu \<Rightarrow> bool" where
  "none_of w x \<longleftrightarrow> x \<notin> set w"

definition one_of :: "jsstring \<Rightarrow> cu \<Rightarrow> bool" where
  "one_of w x \<longleftrightarrow> x \<in> set w"

section \<open>parseUrl\<close>

record ParsedUrl =
  parsed_type :: jsstring
  parsed_id :: jsstring

text \<open>
  \<open>URL_PATTERN\<close>, with the flag \<open>i\<close>; group 1 is \<open>type\<close>, group 2 is \<open>id\<close>:
  \<^verbatim>\<open>https?:\/\/music\.amazon\.[^/]+\/(?<type>albums|tracks|artists|playlists|user-playlists)\/(?<id>[A-Za-z0-9]+)(?:\/[^/?#]+)?(?:[/?].*)?$\<close>
\<close>

definition URL_PATTERN :: re where
  "URL_PATTERN = seqs [
     lit_i (str ''http''), Opt (lit_i (str ''s'')), lit_i (str ''://music.amazon.''),
     Plus (none_of (str ''/'')), lit_i (str ''/''),
     Grp 1 (alts [lit_i (str ''albums''), lit_i (str ''tracks''), lit_i (str ''artists''),
                  lit_i (str ''playlists''), lit_i (str ''user-playlists'')]),
     lit_i (str ''/''),
     Grp 2 (Plus isAlnum),
     Opt (Seq (lit_i (str ''/'')) (Plus (none_of (str ''/?#'')))),
     Opt (Seq (Chr (one_of (str ''/?''))) (Star (\<lambda>x. \<not> isLineTerminator x))),
     Eos]"

definition parseUrl :: "jsstring \<Rightarrow> ParsedUrl option" where
  "parseUrl url =
     (case re_exec URL_PATTERN (trim url) of
        None \<Rightarrow> None
      | Some c \<Rightarrow>
          (case (group c 1, group c 2) of
             (Some type, Some ident) \<Rightarrow>
               if type = [] \<or> ident = [] then None
               else Some \<lparr> parsed_type = type, parsed_id = ident \<rparr>
           | _ \<Rightarrow> None))"

section \<open>The platform\<close>

text \<open>
  A value read from structured data is a JSON value. The number of a \<open>JNum\<close> is the value
  of the host's double; an object is the list of its own properties.
\<close>

datatype json =
    JNull
  | JBool bool
  | JNum rat
  | JStr jsstring
  | JArr "json list"
  | JObj "(jsstring \<times> json) list"

text \<open>The host's truthiness: what \<open>!v\<close>, \<open>v || w\<close> and \<open>if (v)\<close> test.\<close>

fun truthy :: "json \<Rightarrow> bool" where
  "truthy JNull = False"
| "truthy (JBool b) = b"
| "truthy (JNum r) = (r \<noteq> 0)"
| "truthy (JStr s) = (s \<noteq> [])"
| "truthy (JArr xs) = True"
| "truthy (JObj kvs) = True"

text \<open>
  Reading the property \<open>key\<close> of a value that is not \<open>null\<close>; \<open>None\<close> is \<open>undefined\<close>. Only
  an object has the properties the source reads (\<open>@type\<close>, \<open>byArtist\<close>, \<open>inAlbum\<close>,
  \<open>duration\<close>, \<open>name\<close>, \<open>@id\<close>).
\<close>

fun get_prop :: "json \<Rightarrow> jsstring \<Rightarrow> json option" where
  "get_prop (JObj kvs) key = map_of kvs key"
| "get_prop v key = None"

text \<open>\<open>a || b\<close>, where \<open>a\<close> may be \<open>undefined\<close>.\<close>

definition js_or :: "json option \<Rightarrow> json \<Rightarrow> json" where
  "js_or a b = (case a of None \<Rightarrow> b | Some v \<Rightarrow> if truthy v then v else b)"

text \<open>
  The outcome of \<open>fetch(url)\<close>: the promise rejects, or it resolves to a response with its
  \<open>ok\<close> flag, its status and the outcome of \<open>response.text()\<close>.
\<close>

datatype fetch_result =
    Rejects error
  | Response bool nat "error + jsstring"

text \<open>
  The builtins the program calls are parameters of the model: the network behind \<open>fetch\<close>,
  \<open>JSON.parse\<close> (\<open>None\<close> when it throws), the conversion of a value that is not a string
  to a string (\<open>None\<close> when it throws), \<open>encodeURIComponent\<close> and \<open>decodeURIComponent\<close> on
  strings (\<open>None\<close> when they throw \<open>URIError\<close>). Writing to the console is left out.
\<close>

record env =
  fetch :: "jsstring \<Rightarrow> fetch_result"
  JSON_parse :: "jsstring \<Rightarrow> json option"
  ToString :: "json \<Rightarrow> jsstring option"
  encodeURIComponent :: "jsstring \<Rightarrow> jsstring option"
  decodeURIComponent :: "jsstring \<Rightarrow> jsstring option"

definition to_string :: "env \<Rightarrow> json \<Rightarrow> jsstring option" where
  "to_string e v = (case v of JStr s \<Rightarrow> Some s | _ \<Rightarrow> ToString e v)"

text \<open>
  \<open>parseInt\<close> on a string of decimal digits. (The host rounds to a double above \<open>2^53\<close>;
  the model keeps the exact number.)
\<close>

definition parseInt :: "jsstring \<Rightarrow> nat" where
  "parseInt ds = foldl (\<lambda>a d. 10 * a + (d - 48)) 0 ds"

section \<open>parseOpenGraph\<close>

record RawMetadata =
  url :: jsstring
  title :: jsstring
  description :: jsstring
  image :: jsstring
  type :: jsstring
  site_name :: jsstring
  audio :: jsstring
  artist :: json
  album :: json
  albumUrl :: jsstring
  duration :: nat

definition initial_metadata :: "jsstring \<Rightarrow> RawMetadata" where
  "initial_metadata u = \<lparr> url = u, title = [], description = [], image = [], type = [],
     site_name = [], audio = [], artist = JStr [], album = JStr [], albumUrl = [],
     duration = 0 \<rparr>"

text \<open>\<^verbatim>\<open><meta\s+property="(og:|music:)([^"]+)"\s+content="([^"]*)"\<close>, flag \<open>g\<close>.\<close>

definition metaRegex :: re where
  \<open>metaRegex = seqs [
     lit (str ''<meta''), Plus isWhiteSpace, lit (str ''property="''),
     Grp 1 (alts [lit (str ''og:''), lit (str ''music:'')]),
     Grp 2 (Plus (none_of (str ''"''))),
     lit (str ''"''), Plus isWhiteSpace, lit (str ''content="''),
     Grp 3 (Star (none_of (str ''"''))),
     lit (str ''"'')]\<close>

text \<open>\<^verbatim>\<open><title>([^<]*)<\/title>\<close>, flag \<open>i\<close>.\<close>

definition titleRegex :: re where
  "titleRegex = seqs [lit_i (str ''<title>''), Grp 1 (Star (none_of (str ''<''))),
     lit_i (str ''</title>'')]"

text \<open>\<^verbatim>\<open><script type="application\/ld\+json">([\s\S]*?)<\/script>\<close>, flag \<open>i\<close>.\<close>

definition jsonLdRegex :: re where
  \<open>jsonLdRegex = seqs [lit_i (str ''<script type="application/ld+json">''),
     Grp 1 (LazyStar (\<lambda>x. True)), lit_i (str ''</script>'')]\<close>

text \<open>\<^verbatim>\<open>PT(?:(\d+)H)?(?:(\d+)M)?(?:(\d+)S)?\<close>.\<close>

definition durationRegex :: re where
  "durationRegex = seqs [lit (str ''PT''),
     Opt (Seq (Grp 1 (Plus isDigit)) (lit (str ''H''))),
     Opt (Seq (Grp 2 (Plus isDigit)) (lit (str ''M''))),
     Opt (Seq (Grp 3 (Plus isDigit)) (lit (str ''S'')))]"

text \<open>\<^verbatim>\<open>(?:from|on)\s+["']?([^"']+)["']?\<close>, flag \<open>i\<close>.\<close>

definition albumRegex :: re where
  \<open>albumRegex = seqs [alts [lit_i (str ''from''), lit_i (str ''on'')], Plus isWhiteSpace,
     Opt (Chr (one_of [34, 39])), Grp 1 (Plus (none_of [34, 39])), Opt (Chr (one_of [34, 39]))]\<close>

text \<open>The body of the loop over the meta tags: one tag, with its three groups.\<close>

definition meta_tag :: "RawMetadata \<Rightarrow> captures \<Rightarrow> RawMetadata" where
  "meta_tag m c =
     (case (group c 1, group c 2, group c 3) of
        (Some pre, Some property, Some content) \<Rightarrow>
          if pre = str ''og:'' then
            (if property = str ''title'' then m\<lparr>title := content\<rparr>
             else if property = str ''description'' then m\<lparr>description := content\<rparr>
             else if property = str ''image'' \<or> property = str ''image:secure_url''
               then (if image m = [] then m\<lparr>image := content\<rparr> else m)
             else if property = str ''type'' then m\<lparr>type := content\<rparr>
             else if property = str ''site_name'' then m\<lparr>site_name := content\<rparr>
             else if property = str ''audio'' \<or> property = str ''audio:url''
                     \<or> property = str ''audio:secure_url''
               then (if audio m = [] then m\<lparr>audio := content\<rparr> else m)
             else m)
          else if pre = str ''music:'' then
            (if property = str ''album'' then m\<lparr>albumUrl := content\<rparr> else m)
          else m
      | _ \<Rightarrow> m)"

definition stage_meta :: "jsstring \<Rightarrow> RawMetadata \<Rightarrow> RawMetadata" where
  "stage_meta html m = foldl meta_tag m (exec_all metaRegex html)"

definition stage_title :: "jsstring \<Rightarrow> RawMetadata \<Rightarrow> RawMetadata" where
  "stage_title html m =
     (if title m = [] then
        (case re_exec titleRegex html of
           None \<Rightarrow> m
         | Some c \<Rightarrow>
             (case group c 1 of
                None \<Rightarrow> m
              | Some t \<Rightarrow> m\<lparr>title := trim (remove_first (str '' | Amazon Music'') t)\<rparr>))
      else m)"

text \<open>
  The structured-data block. \<open>JSON.parse\<close> throwing, and reading \<open>@type\<close> of \<open>null\<close>, are
  caught before anything is written; the conversion of the duration to a string throwing is
  caught after the artist and the album were written.
\<close>

definition read_duration :: "env \<Rightarrow> json \<Rightarrow> RawMetadata \<Rightarrow> RawMetadata" where
  "read_duration e jsonLd m =
     (case get_prop jsonLd (str ''duration'') of
        None \<Rightarrow> m
      | Some d \<Rightarrow>
          if truthy d then
            (case to_string e d of
               None \<Rightarrow> m
             | Some ds \<Rightarrow>
                 (case re_exec durationRegex ds of
                    None \<Rightarrow> m
                  | Some c \<Rightarrow>
                      (let hours = (case group c 1 of None \<Rightarrow> 0 | Some g \<Rightarrow> parseInt g);
                           minutes = (case group c 2 of None \<Rightarrow> 0 | Some g \<Rightarrow> parseInt g);
                           seconds = (case group c 3 of None \<Rightarrow> 0 | Some g \<Rightarrow> parseInt g)
                       in m\<lparr>duration := hours * 3600 + minutes * 60 + seconds\<rparr>)))
          else m)"

definition read_json_ld :: "env \<Rightarrow> json \<Rightarrow> RawMetadata \<Rightarrow> RawMetadata" where
  "read_json_ld e jsonLd m =
     (if get_prop jsonLd (str ''@type'') = Some (JStr (str ''MusicRecording'')) then
        (let m1 = (case get_prop jsonLd (str ''byArtist'') of
                     None \<Rightarrow> m
                   | Some a \<Rightarrow>
                       if truthy a
                       then m\<lparr>artist := js_or (get_prop a (str ''name''))
                                          (js_or (get_prop a (str ''@id'')) (JStr []))\<rparr>
                       else m);
             m2 = (case get_prop jsonLd (str ''inAlbum'') of
                     None \<Rightarrow> m1
                   | Some a \<Rightarrow>
                       if truthy a
                       then m1\<lparr>album := js_or (get_prop a (str ''name'')) (JStr [])\<rparr>
                       else m1)
         in read_duration e jsonLd m2)
      else m)"

definition stage_json_ld :: "env \<Rightarrow> jsstring \<Rightarrow> RawMetadata \<Rightarrow> RawMetadata" where
  "stage_json_ld e html m =
     (case re_exec jsonLdRegex html of
        None \<Rightarrow> m
      | Some c \<Rightarrow>
          (case group c 1 of
             None \<Rightarrow> m
           | Some text \<Rightarrow>
               (case JSON_parse e text of
                  None \<Rightarrow> m
                | Some JNull \<Rightarrow> m
                | Some jsonLd \<Rightarrow> read_json_ld e jsonLd m)))"

definition separators :: "jsstring list" where
  "separators = [en_dash_sep, str '' - '', str '' | '']"

text \<open>The loop \<open>for (const sep of separators)\<close> of \<open>parseOpenGraph\<close>, with its \<open>break\<close>.\<close>

fun artist_from_title :: "jsstring list \<Rightarrow> RawMetadata \<Rightarrow> RawMetadata" where
  "artist_from_title [] m = m"
| "artist_from_title (sep # seps) m =
     (if includes_js (title m) sep then
        (let parts = split (title m) sep in
         if length parts \<ge> 2 then
           (let potentialArtist = trim (last parts) in
            if potentialArtist \<noteq> [] \<and> potentialArtist \<noteq> str ''Amazon Music''
            then m\<lparr>artist := JStr potentialArtist\<rparr>
            else m)
         else artist_from_title seps m)
      else artist_from_title seps m)"

definition stage_split_title :: "RawMetadata \<Rightarrow> RawMetadata" where
  "stage_split_title m =
     (if \<not> truthy (artist m) \<and> title m \<noteq> [] then artist_from_title separators m else m)"

definition stage_description :: "RawMetadata \<Rightarrow> RawMetadata" where
  "stage_description m =
     (if \<not> truthy (album m) \<and> description m \<noteq> [] then
        (case re_exec albumRegex (description m) of
           None \<Rightarrow> m
         | Some c \<Rightarrow>
             (case group c 1 of
                None \<Rightarrow> m
              | Some a \<Rightarrow>
                  (let potentialAlbum = trim a in
                   if potentialAlbum \<noteq> [] \<and> potentialAlbum \<noteq> str ''Amazon Music''
                   then m\<lparr>album := JStr potentialAlbum\<rparr>
                   else m)))
      else m)"

text \<open>The record after each of the five stages, and \<open>parseOpenGraph\<close> itself.\<close>

fun after_stage :: "env \<Rightarrow> jsstring \<Rightarrow> jsstring \<Rightarrow> nat \<Rightarrow> RawMetadata" where
  "after_stage e html u 0 = initial_metadata u"
| "after_stage e html u (Suc k) =
     (let m = after_stage e html u k in
      if k = 0 then stage_meta html m
      else if k = 1 then stage_title html m
      else if k = 2 then stage_json_ld e html m
      else if k = 3 then stage_split_title m
      else if k = 4 then stage_description m
      else m)"

definition parseOpenGraph :: "env \<Rightarrow> jsstring \<Rightarrow> jsstring \<Rightarrow> RawMetadata" where
  "parseOpenGraph e html u =
     stage_description (stage_split_title (stage_json_ld e html
       (stage_title html (stage_meta html (initial_metadata u)))))"

section \<open>fetchMetadata\<close>

text \<open>
  The outer \<open>catch\<close> of \<open>fetchMetadata\<close>: an \<open>Error\<close> named \<open>AbortError\<close> becomes the
  timeout error, any other \<open>Error\<close> becomes \<open>Request failed\<close>, and a value that is no
  \<open>Error\<close> is thrown again as it is.
\<close>

definition rethrow :: "error \<Rightarrow> error" where
  "rethrow err = (if err = NonError then NonError
                  else if err = AbortError then RequestTimeout
                  else RequestFailed)"

definition request_url :: "AmazonMusicClient \<Rightarrow> jsstring \<Rightarrow> jsstring" where
  "request_url c path =
     (if startsWith path (str ''http'') then path
      else
        (let path1 = (if \<not> startsWith path (str ''/'') then str ''/'' @ path else path);
             path2 = (if endsWith (baseUrl c) (str ''/api'') \<and> startsWith path1 (str ''/api'')
                      then drop 4 path1 else path1)
         in baseUrl c @ path2))"

definition fetchMetadata :: "AmazonMusicClient \<Rightarrow> env \<Rightarrow> jsstring \<Rightarrow> error + RawMetadata" where
  "fetchMetadata c e path =
     (let u = request_url c path in
      case fetch e u of
        Rejects err \<Rightarrow> Inl (rethrow err)
      | Response ok status body \<Rightarrow>
          if \<not> ok then Inl (rethrow (HttpError status))
          else (case body of
                  Inl err \<Rightarrow> Inl (rethrow err)
                | Inr html \<Rightarrow> Inr (parseOpenGraph e html u)))"

section \<open>The assemblers\<close>

record Artist =
  artist_name :: json
  artist_url :: "jsstring option"

record Album =
  album_name :: json
  album_url :: "jsstring option"

record Track =
  track_id :: jsstring
  track_name :: jsstring
  track_title :: "jsstring option"
  track_artist :: Artist
  track_duration :: nat
  track_url :: jsstring
  track_image :: "jsstring option"
  track_album :: Album

record AlbumFull =
  albumfull_name :: jsstring
  albumfull_url :: jsstring
  albumfull_image :: jsstring
  albumfull_artist_name :: jsstring
  albumfull_artist_url :: jsstring
  albumfull_songs :: "Track list"
  albumfull_totalSongs :: nat

record ArtistFull =
  artistfull_name :: jsstring
  artistfull_url :: jsstring
  artistfull_image :: jsstring
  artistfull_topSongs :: "Track list"

record Playlist =
  playlist_name :: jsstring
  playlist_url :: jsstring
  playlist_image :: jsstring
  playlist_createdBy :: jsstring
  playlist_songs :: "Track list"
  playlist_totalSongs :: nat

text \<open>
  The loop over the separators of \<open>getAlbum\<close>, on the pair of the album name and the artist
  name; here the \<open>break\<close> follows the first separator the title includes.
\<close>

fun album_from_title ::
  "jsstring list \<Rightarrow> jsstring \<Rightarrow> jsstring \<times> jsstring \<Rightarrow> jsstring \<times> jsstring" where
  "album_from_title [] t names = names"
| "album_from_title (sep # seps) t names =
     (if includes_js t sep then
        (let parts = split t sep in
         if length parts \<ge> 2 then (trim (hd parts), trim (last parts)) else names)
      else album_from_title seps t names)"

definition getAlbum :: "AmazonMusicClient \<Rightarrow> env \<Rightarrow> jsstring \<Rightarrow> error + AlbumFull option" where
  "getAlbum c e ident =
     (case fetchMetadata c e (str ''/albums/'' @ ident) of
        Inl err \<Rightarrow> Inl err
      | Inr metadata \<Rightarrow>
          if title metadata = [] then Inr None
          else
            (let (albumName, artistName) =
                   album_from_title separators (title metadata)
                     (title metadata, str ''Unknown Artist'')
             in Inr (Some \<lparr> albumfull_name = albumName, albumfull_url = url metadata,
                   albumfull_image = image metadata, albumfull_artist_name = artistName,
                   albumfull_artist_url = [], albumfull_songs = [],
                   albumfull_totalSongs = 0 \<rparr>)))"

text \<open>
  The album enrichment of \<open>getTrack\<close>, inside its \<open>try\<close>: the artist name, the album name
  and the album URL after it, starting from the names taken from the metadata.
\<close>

definition enrich_from_album ::
  "AmazonMusicClient \<Rightarrow> env \<Rightarrow> RawMetadata \<Rightarrow> json \<times> json \<times> jsstring \<Rightarrow> json \<times> json \<times> jsstring" where
  "enrich_from_album c e metadata names =
     (if albumUrl metadata \<noteq> [] then
        (case parseUrl (albumUrl metadata) of
           None \<Rightarrow> names
         | Some parsed \<Rightarrow>
             if parsed_id parsed \<noteq> [] then
               (case getAlbum c e (parsed_id parsed) of
                  Inl err \<Rightarrow> names
                | Inr None \<Rightarrow> names
                | Inr (Some albumData) \<Rightarrow>
                    (JStr (albumfull_artist_name albumData), JStr (albumfull_name albumData),
                     albumfull_url albumData))
             else names)
      else names)"

text \<open>
  The search link built from the album name; \<open>encodeURIComponent\<close> converts its argument to
  a string first, and either step can throw.
\<close>

definition search_link :: "env \<Rightarrow> json \<Rightarrow> error + jsstring" where
  "search_link e albumName =
     (case to_string e albumName of
        None \<Rightarrow> Inl TypeError
      | Some s \<Rightarrow>
          (case encodeURIComponent e s of
             None \<Rightarrow> Inl URIError
           | Some enc \<Rightarrow> Inr (str ''https://music.amazon.com/search/'' @ enc)))"

definition getTrack :: "AmazonMusicClient \<Rightarrow> env \<Rightarrow> jsstring \<Rightarrow> error + Track option" where
  "getTrack c e ident =
     (case fetchMetadata c e (str ''/tracks/'' @ ident) of
        Inl err \<Rightarrow> Inl err
      | Inr metadata \<Rightarrow>
          if title metadata = [] then Inr None
          else
            (let (artistName, albumName, albumUrl') =
                   enrich_from_album c e metadata
                     (if truthy (artist metadata) then artist metadata
                      else JStr (str ''Unknown Artist''),
                      if truthy (album metadata) then album metadata
                      else JStr (str ''Unknown Album''),
                      [])
             in case (if albumUrl' \<noteq> [] then Inr albumUrl' else search_link e albumName) of
                  Inl err \<Rightarrow> Inl err
                | Inr link \<Rightarrow>
                    Inr (Some \<lparr> track_id = ident, track_name = title metadata,
                      track_title = Some (title metadata),
                      track_artist = \<lparr> artist_name = artistName, artist_url = Some [] \<rparr>,
                      track_duration = duration metadata, track_url = url metadata,
                      track_image = Some (image metadata),
                      track_album = \<lparr> album_name = albumName, album_url = Some link \<rparr> \<rparr>)))"

definition getArtist :: "AmazonMusicClient \<Rightarrow> env \<Rightarrow> jsstring \<Rightarrow> error + ArtistFull option" where
  "getArtist c e ident =
     (case fetchMetadata c e (str ''/artists/'' @ ident) of
        Inl err \<Rightarrow> Inl err
      | Inr metadata \<Rightarrow>
          if title metadata = [] then Inr None
          else Inr (Some \<lparr> artistfull_name = title metadata, artistfull_url = url metadata,
                 artistfull_image = image metadata, artistfull_topSongs = [] \<rparr>))"

definition getPlaylist :: "AmazonMusicClient \<Rightarrow> env \<Rightarrow> jsstring \<Rightarrow> error + Playlist option" where
  "getPlaylist c e ident =
     (case fetchMetadata c e (str ''/playlists/'' @ ident) of
        Inl err \<Rightarrow> Inl err
      | Inr metadata \<Rightarrow>
          if title metadata = [] then Inr None
          else Inr (Some \<lparr> playlist_name = title metadata, playlist_url = url metadata,
                 playlist_image = image metadata, playlist_createdBy = str ''Amazon Music'',
                 playlist_songs = [], playlist_totalSongs = 0 \<rparr>))"

definition getUserPlaylist :: "AmazonMusicClient \<Rightarrow> env \<Rightarrow> jsstring \<Rightarrow> error + Playlist option" where
  "getUserPlaylist c e ident =
     (case fetchMetadata c e (str ''/user-playlists/'' @ ident) of
        Inl err \<Rightarrow> Inl err
      | Inr metadata \<Rightarrow>
          if title metadata = [] then Inr None
          else Inr (Some \<lparr> playlist_name = title metadata, playlist_url = url metadata,
                 playlist_image = image metadata, playlist_createdBy = str ''User'',
                 playlist_songs = [], playlist_totalSongs = 0 \<rparr>))"

section \<open>search\<close>

text \<open>\<^verbatim>\<open>href="https:\/\/r\.search\.yahoo\.com\/[^"]*RU=([^"\/]+)\/\<close>, flag \<open>g\<close>.\<close>

definition linkRegex :: re where
  \<open>linkRegex = seqs [lit (str ''href="https://r.search.yahoo.com/''),
     Star (none_of (str ''"'')), lit (str ''RU=''),
     Grp 1 (Plus (none_of (str ''"/''))), lit (str ''/'')]\<close>

text \<open>
  The record pushed where no metadata is read: it has no \<open>title\<close>, no \<open>image\<close> and no
  \<open>url\<close> of the artist or the album.
\<close>

definition placeholder :: "jsstring \<Rightarrow> ParsedUrl \<Rightarrow> Track" where
  "placeholder label parsed =
     \<lparr> track_id = parsed_id parsed,
       track_name = label @ str '' '' @ parsed_id parsed,
       track_title = None,
       track_artist = \<lparr> artist_name = JStr (str ''Unknown''), artist_url = None \<rparr>,
       track_duration = 0,
       track_url = str ''https://music.amazon.com/'' @ parsed_type parsed @ str ''/''
                     @ parsed_id parsed,
       track_image = None,
       track_album = \<lparr> album_name = JStr (str ''Unknown''), album_url = None \<rparr> \<rparr>"

text \<open>
  The track link of one match of the link pattern, if the body of the loop gets as far as
  the test \<open>!processedIds.has(parsed.id)\<close>: \<open>decodeURIComponent\<close> throwing is caught, and a
  link that does not include the domain, does not parse or is not a track is passed over.
\<close>

definition track_link :: "env \<Rightarrow> captures \<Rightarrow> ParsedUrl option" where
  "track_link e c =
     (case group c 1 of
        None \<Rightarrow> None
      | Some encodedUrl \<Rightarrow>
          (case decodeURIComponent e encodedUrl of
             None \<Rightarrow> None
           | Some decodedUrl \<Rightarrow>
               if \<not> includes_js decodedUrl (str ''music.amazon.com'') then None
               else (case parseUrl decodedUrl of
                       None \<Rightarrow> None
                     | Some parsed \<Rightarrow>
                         if parsed_type parsed = str ''tracks'' then Some parsed else None)))"

text \<open>
  A number of the host, as the parameter \<open>limit\<close> is typed: a finite double, by its value,
  or \<open>NaN\<close>, or one of the two infinities. \<open>length_ge n x\<close> is the test \<open>n >= x\<close> and
  \<open>at_most n x\<close> the test \<open>n <= x\<close> for a length \<open>n\<close>, as the host compares: every
  comparison with \<open>NaN\<close> is false.
\<close>

datatype number = Num rat | NaN | PosInfinity | NegInfinity

definition length_ge :: "nat \<Rightarrow> number \<Rightarrow> bool" where
  "length_ge n x =
     (case x of Num r \<Rightarrow> r \<le> of_nat n | NaN \<Rightarrow> False | PosInfinity \<Rightarrow> False
      | NegInfinity \<Rightarrow> True)"

definition at_most :: "nat \<Rightarrow> number \<Rightarrow> bool" where
  "at_most n x =
     (case x of Num r \<Rightarrow> of_nat n \<le> r | NaN \<Rightarrow> False | PosInfinity \<Rightarrow> True
      | NegInfinity \<Rightarrow> False)"

text \<open>The parameter \<open>limit: number = 20\<close>: an argument that is absent is \<open>None\<close>.\<close>

definition limit_or_default :: "number option \<Rightarrow> number" where
  "limit_or_default limit = (case limit of None \<Rightarrow> Num 20 | Some x \<Rightarrow> x)"

text \<open>
  The first loop over the matches, on the pair of \<open>results\<close> and \<open>processedIds\<close>: it ends
  at the \<open>break\<close> or when the matches are used up.
\<close>

fun first_pass ::
  "AmazonMusicClient \<Rightarrow> env \<Rightarrow> number \<Rightarrow> captures list \<Rightarrow> Track list \<times> jsstring set
     \<Rightarrow> Track list \<times> jsstring set" where
  "first_pass c e limit [] (results, processedIds) = (results, processedIds)"
| "first_pass c e limit (m # ms) (results, processedIds) =
     (if length_ge (length results) limit then (results, processedIds)
      else
        (case track_link e m of
           None \<Rightarrow> first_pass c e limit ms (results, processedIds)
         | Some parsed \<Rightarrow>
             if parsed_id parsed \<notin> processedIds then
               first_pass c e limit ms
                 (case getTrack c e (parsed_id parsed) of
                    Inr (Some trackData) \<Rightarrow> results @ [trackData]
                  | Inr None \<Rightarrow> results
                  | Inl err \<Rightarrow> results @ [placeholder (str ''Track'') parsed],
                  insert (parsed_id parsed) processedIds)
             else first_pass c e limit ms (results, processedIds)))"

text \<open>The second loop, which pushes a placeholder for each new track link.\<close>

fun second_pass ::
  "env \<Rightarrow> number \<Rightarrow> captures list \<Rightarrow> Track list \<times> jsstring set
     \<Rightarrow> Track list \<times> jsstring set" where
  "second_pass e limit [] (results, processedIds) = (results, processedIds)"
| "second_pass e limit (m # ms) (results, processedIds) =
     (if length_ge (length results) limit then (results, processedIds)
      else
        (case track_link e m of
           None \<Rightarrow> second_pass e limit ms (results, processedIds)
         | Some parsed \<Rightarrow>
             if parsed_id parsed \<notin> processedIds then
               second_pass e limit ms
                 (results @ [placeholder (str ''Result'') parsed],
                  insert (parsed_id parsed) processedIds)
             else second_pass e limit ms (results, processedIds)))"

definition search_url :: "jsstring \<Rightarrow> jsstring \<Rightarrow> jsstring" where
  "search_url site q = str ''https://search.yahoo.com/search?p=site:'' @ site @ str ''+'' @ q
     @ str ''&nojs=1''"

text \<open>The body of the \<open>try\<close> of \<open>search\<close>: \<open>Inl\<close> is an exception that reaches its \<open>catch\<close>.\<close>

definition search_try ::
  "AmazonMusicClient \<Rightarrow> env \<Rightarrow> jsstring \<Rightarrow> number \<Rightarrow> error + Track list" where
  "search_try c e query limit =
     (case encodeURIComponent e query of
        None \<Rightarrow> Inl URIError
      | Some q \<Rightarrow>
          (case fetch e (search_url (str ''music.amazon.com/tracks'') q) of
             Rejects err \<Rightarrow> Inl err
           | Response ok status body \<Rightarrow>
               if \<not> ok then Inr []
               else
                 (case body of
                    Inl err \<Rightarrow> Inl err
                  | Inr html \<Rightarrow>
                      (let (results, processedIds) =
                             first_pass c e limit (exec_all linkRegex html) ([], {})
                       in if length results = 0 then
                            (case fetch e (search_url (str ''music.amazon.com'') q) of
                               Rejects err \<Rightarrow> Inl err
                             | Response ok2 status2 body2 \<Rightarrow>
                                 if ok2 then
                                   (case body2 of
                                      Inl err \<Rightarrow> Inl err
                                    | Inr html2 \<Rightarrow>
                                        Inr (fst (second_pass e limit
                                               (exec_all linkRegex html2)
                                               (results, processedIds))))
                                 else Inr results)
                          else Inr results))))"

text \<open>
  \<open>search(query, limit)\<close>, with the default of the parameter: the result is \<open>Inr\<close> of the
  list returned, and would be \<open>Inl\<close> if an exception left the function.
\<close>

definition search ::
  "AmazonMusicClient \<Rightarrow> env \<Rightarrow> jsstring \<Rightarrow> number option \<Rightarrow> error + Track list" where
  "search c e query limit =
     (case search_try c e query (limit_or_default limit) of
        Inl err \<Rightarrow> Inr []
      | Inr results \<Rightarrow> Inr results)"

section \<open>Sample inputs\<close>

text \<open>
  Concrete inputs for the theorems below. \<open>sample_encodeURIComponent\<close> is the builtin as
  the language standard defines it: a lone surrogate is an error, a code unit in
  \<^verbatim>\<open>A-Z a-z 0-9 - _ . ! ~ * ' ( )\<close> stays, and any other code point becomes the
  percent-escaped bytes of its UTF-8 form. \<open>sample_decodeURIComponent\<close> is the builtin on
  strings whose escapes are below \<open>%80\<close>; no sample has another escape.
\<close>

definition hex_digit :: "nat \<Rightarrow> cu" where
  "hex_digit n = (if n < 10 then 48 + n else 55 + n)"

definition percent :: "nat \<Rightarrow> jsstring" where
  "percent b = [37, hex_digit (b div 16), hex_digit (b mod 16)]"

definition utf8 :: "nat \<Rightarrow> nat list" where
  "utf8 cp =
     (if cp < 128 then [cp]
      else if cp < 2048 then [192 + cp div 64, 128 + cp mod 64]
      else if cp < 65536 then [224 + cp div 4096, 128 + (cp div 64) mod 64, 128 + cp mod 64]
      else [240 + cp div 262144, 128 + (cp div 4096) mod 64, 128 + (cp div 64) mod 64,
            128 + cp mod 64])"

definition isUnreserved :: "cu \<Rightarrow> bool" where
  "isUnreserved x \<longleftrightarrow> isAlnum x \<or> x \<in> set (str ''-_.!~*()'') \<or> x = 39"

fun sample_encodeURIComponent :: "jsstring \<Rightarrow> jsstring option" where
  "sample_encodeURIComponent [] = Some []"
| "sample_encodeURIComponent (x # xs) =
     (if 55296 \<le> x \<and> x \<le> 56319 then
        (case xs of
           [] \<Rightarrow> None
         | y # ys \<Rightarrow>
             if 56320 \<le> y \<and> y \<le> 57343 then
               map_option
                 (\<lambda>r. concat (map percent (utf8 (65536 + (x - 55296) * 1024 + (y - 56320)))) @ r)
                 (sample_encodeURIComponent ys)
             else None)
      else if 56320 \<le> x \<and> x \<le> 57343 then None
      else map_option
             (\<lambda>r. (if isUnreserved x then [x] else concat (map percent (utf8 x))) @ r)
             (sample_encodeURIComponent xs))"

definition hex_value :: "cu \<Rightarrow> nat option" where
  "hex_value x =
     (if 48 \<le> x \<and> x \<le> 57 then Some (x - 48)
      else if 65 \<le> x \<and> x \<le> 70 then Some (x - 55)
      else if 97 \<le> x \<and> x \<le> 102 then Some (x - 87)
      else None)"

fun sample_decodeURIComponent :: "jsstring \<Rightarrow> jsstring option" where
  "sample_decodeURIComponent [] = Some []"
| "sample_decodeURIComponent (x # xs) =
     (if x = 37 then
        (case xs of
           a # b # rest \<Rightarrow>
             (case (hex_value a, hex_value b) of
                (Some h, Some l) \<Rightarrow>
                  if 16 * h + l < 128
                  then map_option (\<lambda>r. (16 * h + l) # r) (sample_decodeURIComponent rest)
                  else None
              | _ \<Rightarrow> None)
         | _ \<Rightarrow> None)
      else map_option (\<lambda>r. x # r) (sample_decodeURIComponent xs))"

text \<open>
  A platform with the given network, whose \<open>JSON.parse\<close> reads the texts of the given
  table. No sample parses another text or converts a value that is not a string.
\<close>

definition sample_env :: "(jsstring \<Rightarrow> fetch_result) \<Rightarrow> (jsstring \<times> json) list \<Rightarrow> env" where
  "sample_env net table = \<lparr> fetch = net, JSON_parse = map_of table, ToString = (\<lambda>v. None),
     encodeURIComponent = sample_encodeURIComponent,
     decodeURIComponent = sample_decodeURIComponent \<rparr>"

text \<open>The client that \<open>index.ts\<close> builds.\<close>

definition sample_client :: AmazonMusicClient where
  "sample_client = \<lparr> baseUrl = str ''https://music.amazon.com'', client_searchLimit = 10,
     client_timeout = 10000 \<rparr>"

text \<open>A page of search results with one redirect link, to the track \<open>B079\<close>.\<close>

definition sample_results_page :: jsstring where
  \<open>sample_results_page = str
     ''<a href="https://r.search.yahoo.com/_ylt=A/RV=2/RU=https%3a%2f%2fmusic.amazon.com%2ftracks%2fB079/RK=2/RS=x">''\<close>

text \<open>
  A network on which the first search for \<open>x\<close> returns that page and every other request
  fails.
\<close>

definition search_only_net :: "jsstring \<Rightarrow> fetch_result" where
  "search_only_net u =
     (if u = str ''https://search.yahoo.com/search?p=site:music.amazon.com/tracks+x&nojs=1''
      then Response True 200 (Inr sample_results_page)
      else Rejects PlatformError)"

text \<open>A track page with a title only, and a network that serves it for every request.\<close>

definition sample_track_page :: jsstring where
  \<open>sample_track_page = str
     ''<meta property="og:title" content="Whatever It Takes - Imagine Dragons">''\<close>

definition track_page_net :: "jsstring \<Rightarrow> fetch_result" where
  "track_page_net u = Response True 200 (Inr sample_track_page)"

text \<open>A network that is down, and one that serves an empty page for every request.\<close>

definition unreachable_net :: "jsstring \<Rightarrow> fetch_result" where
  "unreachable_net u = Rejects PlatformError"

definition empty_page_net :: "jsstring \<Rightarrow> fetch_result" where
  "empty_page_net u = Response True 200 (Inr [])"

text \<open>
  A track page with a title and a link to its album, and a network that serves it for the
  track \<open>B079\<close> and fails for every other request, the one for the album included.
\<close>

definition linked_track_page :: jsstring where
  \<open>linked_track_page = str
     ''<meta property="og:title" content="T"><meta property="music:album" content="https://music.amazon.com/albums/B07A">''\<close>

definition linked_track_net :: "jsstring \<Rightarrow> fetch_result" where
  "linked_track_net u =
     (if u = str ''https://music.amazon.com/tracks/B079''
      then Response True 200 (Inr linked_track_page)
      else Rejects PlatformError)"

text \<open>
  The same page with a structured-data block whose album name is the escape of a lone
  surrogate, \<^verbatim>\<open>"\ud83d"\<close> (code 92 is the backslash); \<open>JSON.parse\<close> reads the name as the
  string of that one code unit.
\<close>

definition surrogate_json_text :: jsstring where
  \<open>surrogate_json_text =
     str ''{"@type":"MusicRecording","inAlbum":{"name":"'' @ [92] @ str ''ud83d"}}''\<close>

definition surrogate_json :: json where
  "surrogate_json = JObj [(str ''@type'', JStr (str ''MusicRecording'')),
     (str ''inAlbum'', JObj [(str ''name'', JStr [55357])])]"

definition surrogate_track_page :: jsstring where
  \<open>surrogate_track_page = linked_track_page @ str ''<script type="application/ld+json">''
     @ surrogate_json_text @ str ''</script>''\<close>

definition surrogate_track_net :: "jsstring \<Rightarrow> fetch_result" where
  "surrogate_track_net u =
     (if u = str ''https://music.amazon.com/tracks/B079''
      then Response True 200 (Inr surrogate_track_page)
      else Rejects PlatformError)"

section \<open>First writer wins\<close>

text \<open>
  \<open>kept m m'\<close>: every field that is not at its default in \<open>m\<close> has the same value in
  \<open>m'\<close>. The defaults are those of \<open>initial_metadata\<close>; the field \<open>url\<close>, which starts as
  the address of the page, is to stay as it is.
\<close>

definition kept :: "RawMetadata \<Rightarrow> RawMetadata \<Rightarrow> bool" where
  "kept m m' \<longleftrightarrow>
     url m' = url m \<and>
     (title m \<noteq> [] \<longrightarrow> title m' = title m) \<and>
     (description m \<noteq> [] \<longrightarrow> description m' = description m) \<and>
     (image m \<noteq> [] \<longrightarrow> image m' = image m) \<and>
     (type m \<noteq> [] \<longrightarrow> type m' = type m) \<and>
     (site_name m \<noteq> [] \<longrightarrow> site_name m' = site_name m) \<and>
     (audio m \<noteq> [] \<longrightarrow> audio m' = audio m) \<and>
     (artist m \<noteq> JStr [] \<longrightarrow> artist m' = artist m) \<and>
     (album m \<noteq> JStr [] \<longrightarrow> album m' = album m) \<and>
     (albumUrl m \<noteq> [] \<longrightarrow> albumUrl m' = albumUrl m) \<and>
     (duration m \<noteq> 0 \<longrightarrow> duration m' = duration m)"

section \<open>The form of the URLs that parseUrl accepts\<close>

text \<open>
  The form of a URL, by its parts: an origin, which is
  \<open>http://music.amazon.\<close> or \<open>https://music.amazon.\<close> in any mix of upper and lower
  case; the rest of the host name, up to the first slash; one of the five kind segments,
  in any case; an id of letters and digits; and what follows the id.
\<close>

definition ci_eq :: "jsstring \<Rightarrow> jsstring \<Rightarrow> bool" where
  "ci_eq a b \<longleftrightarrow> map canonicalize a = map canonicalize b"

definition kind_segments :: "jsstring list" where
  "kind_segments = [str ''albums'', str ''tracks'', str ''artists'', str ''playlists'',
     str ''user-playlists'']"

text \<open>
  What may follow the id: nothing, or a slash or a question mark and then any code units
  but line terminators; or a slash, a first path segment (one or more code units other
  than \<open>/\<close>, \<open>?\<close> and \<open>#\<close>, line terminators allowed) and then again nothing or a slash
  or question mark and any code units but line terminators.
\<close>

definition plain_rest :: "jsstring \<Rightarrow> bool" where
  "plain_rest r \<longleftrightarrow>
     (case r of [] \<Rightarrow> True
      | x # t \<Rightarrow> (x = 47 \<or> x = 63) \<and> (\<forall>y\<in>set t. \<not> isLineTerminator y))"

definition rest_ok :: "jsstring \<Rightarrow> bool" where
  "rest_ok r \<longleftrightarrow>
     plain_rest r \<or>
     (case r of [] \<Rightarrow> False
      | x # t \<Rightarrow> x = 47 \<and> takeWhile (none_of (str ''/?#'')) t \<noteq> []
                 \<and> plain_rest (dropWhile (none_of (str ''/?#'')) t))"

text \<open>
  Three readings of the form, from the narrowest to the widest. The strict one is the form
  of the specification: the kind segment is one of the five literal segments, and the id
  is followed by nothing or by a slash or a question mark and any code units but line
  terminators. The second one, \<open>url_parts_ok\<close>, is what the pattern matches (shown
  below): the kind segment in any case, and the wider rest above. The loose one admits the
  kind segment in any case and, after the id, nothing or anything that begins with a
  slash, a question mark or a number sign.
\<close>

definition strict_parts_ok ::
  "jsstring \<Rightarrow> jsstring \<Rightarrow> jsstring \<Rightarrow> jsstring \<Rightarrow> jsstring \<Rightarrow> bool" where
  "strict_parts_ok origin host kind ident rest \<longleftrightarrow>
     (ci_eq origin (str ''http://music.amazon.'') \<or> ci_eq origin (str ''https://music.amazon.''))
     \<and> host \<noteq> [] \<and> 47 \<notin> set host
     \<and> kind \<in> set kind_segments
     \<and> ident \<noteq> [] \<and> (\<forall>x\<in>set ident. isAlnum x)
     \<and> plain_rest rest"

definition loose_parts_ok ::
  "jsstring \<Rightarrow> jsstring \<Rightarrow> jsstring \<Rightarrow> jsstring \<Rightarrow> jsstring \<Rightarrow> bool" where
  "loose_parts_ok origin host kind ident rest \<longleftrightarrow>
     (ci_eq origin (str ''http://music.amazon.'') \<or> ci_eq origin (str ''https://music.amazon.''))
     \<and> host \<noteq> [] \<and> 47 \<notin> set host
     \<and> (\<exists>k\<in>set kind_segments. ci_eq kind k)
     \<and> ident \<noteq> [] \<and> (\<forall>x\<in>set ident. isAlnum x)
     \<and> (case rest of [] \<Rightarrow> True | x # t \<Rightarrow> x = 47 \<or> x = 63 \<or> x = 35)"

definition url_parts_ok ::
  "jsstring \<Rightarrow> jsstring \<Rightarrow> jsstring \<Rightarrow> jsstring \<Rightarrow> jsstring \<Rightarrow> bool" where
  "url_parts_ok origin host kind ident rest \<longleftrightarrow>
     (ci_eq origin (str ''http://music.amazon.'') \<or> ci_eq origin (str ''https://music.amazon.''))
     \<and> host \<noteq> [] \<and> 47 \<notin> set host
     \<and> (\<exists>k\<in>set kind_segments. ci_eq kind k)
     \<and> ident \<noteq> [] \<and> (\<forall>x\<in>set ident. isAlnum x)
     \<and> rest_ok rest"

definition url_of_parts ::
  "jsstring \<Rightarrow> jsstring \<Rightarrow> jsstring \<Rightarrow> jsstring \<Rightarrow> jsstring \<Rightarrow> jsstring" where
  "url_of_parts origin host kind ident rest =
     origin @ host @ str ''/'' @ kind @ str ''/'' @ ident @ rest"

section \<open>Evaluation\<close>

text \<open>The definitions unfolded to run the string functions and the matcher on a literal.\<close>

lemmas re_eval = str_def trim_def isWhiteSpace_def isLineTerminator_def isAlnum_def isDigit_def
  match_here_def seqs_def alts_def lit_def lit_i_def canonicalize_def none_of_def one_of_def
  group_def exec_all_def

section \<open>Trimming\<close>

lemma trim_Nil_iff: "trim s = [] \<longleftrightarrow> (\<forall>x\<in>set s. isWhiteSpace x)"
proof
  assume "trim s = []"
  then have a: "\<forall>x\<in>set (dropWhile isWhiteSpace s). isWhiteSpace x"
    by (simp add: trim_def dropWhile_eq_Nil_conv)
  have "dropWhile isWhiteSpace s = []"
  proof (rule ccontr)
    assume n: "dropWhile isWhiteSpace s \<noteq> []"
    then have "\<not> isWhiteSpace (hd (dropWhile isWhiteSpace s))" by (rule hd_dropWhile)
    moreover have "hd (dropWhile isWhiteSpace s) \<in> set (dropWhile isWhiteSpace s)"
      using n by simp
    ultimately show False using a by blast
  qed
  then show "\<forall>x\<in>set s. isWhiteSpace x" by (simp add: dropWhile_eq_Nil_conv)
next
  assume "\<forall>x\<in>set s. isWhiteSpace x"
  then show "trim s = []" by (auto simp: trim_def dest: set_dropWhileD)
qed

lemma trim_padding:
  assumes "\<forall>x\<in>set pre. isWhiteSpace x" "\<forall>x\<in>set post. isWhiteSpace x"
  shows "trim (pre @ s @ post) = trim s"
proof (cases "\<forall>x\<in>set s. isWhiteSpace x")
  case True
  then have "trim s = []" by (simp add: trim_Nil_iff)
  moreover have "trim (pre @ s @ post) = []"
    using assms True by (auto simp: trim_Nil_iff)
  ultimately show ?thesis by simp
next
  case False
  then obtain x where x: "x \<in> set s" "\<not> isWhiteSpace x" by blast
  have "dropWhile isWhiteSpace (pre @ s @ post) = dropWhile isWhiteSpace (s @ post)"
    using assms(1) by (simp add: dropWhile_append2)
  also have "\<dots> = dropWhile isWhiteSpace s @ post"
    using x by (rule dropWhile_append1)
  finally have "trim (pre @ s @ post)
      = rev (dropWhile isWhiteSpace (rev post @ rev (dropWhile isWhiteSpace s)))"
    by (simp add: trim_def)
  also have "dropWhile isWhiteSpace (rev post @ rev (dropWhile isWhiteSpace s))
      = dropWhile isWhiteSpace (rev (dropWhile isWhiteSpace s))"
    using assms(2) by (intro dropWhile_append2) simp
  finally show ?thesis by (simp add: trim_def)
qed

lemma trim_decompose:
  "\<exists>pre post. s = pre @ trim s @ post \<and> (\<forall>x\<in>set pre. isWhiteSpace x)
     \<and> (\<forall>x\<in>set post. isWhiteSpace x)"
proof -
  let ?d = "dropWhile isWhiteSpace s"
  let ?pre = "takeWhile isWhiteSpace s"
  let ?post = "rev (takeWhile isWhiteSpace (rev ?d))"
  have "rev (trim s @ ?post) = rev ?d" by (simp add: trim_def)
  then have d: "?d = trim s @ ?post" by (simp only: rev_is_rev_conv)
  have "s = ?pre @ ?d" by simp
  with d have "s = ?pre @ trim s @ ?post" by simp
  moreover have "\<forall>x\<in>set ?pre. isWhiteSpace x" by (auto dest: set_takeWhileD)
  moreover have "\<forall>x\<in>set ?post. isWhiteSpace x" by (auto dest: set_takeWhileD)
  ultimately show ?thesis by blast
qed

lemma trim_idem: "trim (trim s) = trim s"
proof -
  obtain pre post where "s = pre @ trim s @ post" "\<forall>x\<in>set pre. isWhiteSpace x"
    "\<forall>x\<in>set post. isWhiteSpace x" using trim_decompose by blast
  then show ?thesis using trim_padding[of pre post "trim s"] by simp
qed

section \<open>The constructor\<close>

text \<open>
  C8, as amended. Constructing a client whose \<open>apiUrl\<close> is empty or holds white space only
  fails with the configuration error. For every other configuration the client is built,
  its search limit lies between 1 and 10, and it is 5 when \<open>searchLimit\<close> is absent or is 0
  and the supplied number clamped to the interval from 1 to 10 otherwise.
\<close>

theorem constructor_search_limit:
  "((\<forall>x\<in>set (apiUrl config). isWhiteSpace x) \<longrightarrow> new_client config = Inl ConfigError) \<and>
   (\<not> (\<forall>x\<in>set (apiUrl config). isWhiteSpace x) \<longrightarrow>
      (\<exists>c. new_client config = Inr c \<and> 1 \<le> getSearchLimit c \<and> getSearchLimit c \<le> 10 \<and>
           getSearchLimit c = (case searchLimit config of None \<Rightarrow> 5
             | Some n \<Rightarrow> if n = 0 then 5 else max 1 (min n 10))))"
  by (auto simp: new_client_def getSearchLimit_def trim_Nil_iff split: option.splits)

text \<open>
  The theorem at a configuration of two spaces, and at one that asks for 50 results.
\<close>

theorem constructor_search_limit_witness:
  "new_client \<lparr> apiUrl = str ''  '', searchLimit = Some 3, timeout = None \<rparr> = Inl ConfigError
   \<and> (\<exists>c. new_client \<lparr> apiUrl = str ''https://music.amazon.com'', searchLimit = Some 50,
                        timeout = None \<rparr> = Inr c \<and> getSearchLimit c = 10)"
  using constructor_search_limit
      [of "\<lparr> apiUrl = str ''  '', searchLimit = Some 3, timeout = None \<rparr>"]
    constructor_search_limit
      [of "\<lparr> apiUrl = str ''https://music.amazon.com'', searchLimit = Some 50,
             timeout = None \<rparr>"]
  by (auto simp: str_def isWhiteSpace_def)

text \<open>
  C8 as it is written fails at the supplied limit 0: the stored limit is 5, and 0 clamped
  to the interval from 1 to 10 is 1.
\<close>

theorem constructor_zero_limit_counterexample:
  "map_sum id getSearchLimit
     (new_client \<lparr> apiUrl = str ''https://music.amazon.com'', searchLimit = Some 0,
                   timeout = None \<rparr>) = Inr 5
   \<and> max 1 (min (0::int) 10) = 1"
  by (simp add: new_client_def getSearchLimit_def re_eval)

section \<open>parseUrl and white space\<close>

text \<open>
  C10. For every string \<open>s\<close>, \<open>parseUrl\<close> gives the same result on \<open>s\<close> and on \<open>s\<close> with
  its leading and trailing white space removed; and white space put around a string does
  not change what \<open>parseUrl\<close> returns for it, so that a padded URL still parses.
\<close>

theorem parseUrl_ignores_padding:
  "parseUrl (trim s) = parseUrl s \<and>
   ((\<forall>x\<in>set pre. isWhiteSpace x) \<and> (\<forall>x\<in>set post. isWhiteSpace x)
      \<longrightarrow> parseUrl (pre @ s @ post) = parseUrl s)"
  by (simp add: parseUrl_def trim_idem trim_padding)

text \<open>The theorem at a track URL with two spaces before it and a tab and a line feed after.\<close>

theorem parseUrl_ignores_padding_witness:
  "parseUrl (str ''  '' @ str ''https://music.amazon.com/tracks/B079'' @ [9, 10])
     = Some \<lparr> parsed_type = str ''tracks'', parsed_id = str ''B079'' \<rparr>"
proof -
  have "parseUrl (str ''https://music.amazon.com/tracks/B079'')
      = Some \<lparr> parsed_type = str ''tracks'', parsed_id = str ''B079'' \<rparr>"
    by (simp add: parseUrl_def URL_PATTERN_def re_eval)
  moreover have "(\<forall>x\<in>set (str ''  ''). isWhiteSpace x) \<and> (\<forall>x\<in>set [9, 10]. isWhiteSpace x)"
    by (simp add: str_def isWhiteSpace_def)
  ultimately show ?thesis
    using parseUrl_ignores_padding
      [of "str ''https://music.amazon.com/tracks/B079''" "str ''  ''" "[9, 10]"]
    by simp
qed

section \<open>Evaluation of the samples\<close>

lemmas og_eval = parseOpenGraph_def stage_meta_def stage_title_def stage_json_ld_def
  stage_split_title_def stage_description_def metaRegex_def titleRegex_def jsonLdRegex_def
  durationRegex_def albumRegex_def initial_metadata_def meta_tag_def separators_def
  en_dash_sep_def split_def read_json_ld_def read_duration_def js_or_def Let_def

lemmas fetch_eval = fetchMetadata_def request_url_def sample_client_def startsWith_def
  endsWith_def rethrow_def

lemma sample_env_sel [simp]:
  "fetch (sample_env net table) = net"
  "JSON_parse (sample_env net table) = map_of table"
  "encodeURIComponent (sample_env net table) = sample_encodeURIComponent"
  "decodeURIComponent (sample_env net table) = sample_decodeURIComponent"
  by (simp_all add: sample_env_def)

lemma sample_links:
  "exec_all linkRegex sample_results_page
     = [[(1, str ''https%3a%2f%2fmusic.amazon.com%2ftracks%2fB079'')]]"
  by (simp add: linkRegex_def sample_results_page_def re_eval)

lemma sample_link_decoded:
  "sample_decodeURIComponent (str ''https%3a%2f%2fmusic.amazon.com%2ftracks%2fB079'')
     = Some (str ''https://music.amazon.com/tracks/B079'')"
  by (simp add: str_def hex_value_def)

lemma sample_link_parsed:
  "parseUrl (str ''https://music.amazon.com/tracks/B079'')
      = Some \<lparr> parsed_type = str ''tracks'', parsed_id = str ''B079'' \<rparr>"
  by (simp add: parseUrl_def URL_PATTERN_def re_eval)

lemma sample_track_link:
  "track_link (sample_env net table)
       [(1, str ''https%3a%2f%2fmusic.amazon.com%2ftracks%2fB079'')]
     = Some \<lparr> parsed_type = str ''tracks'', parsed_id = str ''B079'' \<rparr>"
  unfolding track_link_def
  by (simp add: group_def sample_link_decoded sample_link_parsed) (simp add: str_def)

lemma sample_query: "sample_encodeURIComponent (str ''x'') = Some (str ''x'')"
  by (simp add: str_def isUnreserved_def isAlnum_def)

lemma sample_search_url:
  "search_url (str ''music.amazon.com/tracks'') (str ''x'')
      = str ''https://search.yahoo.com/search?p=site:music.amazon.com/tracks+x&nojs=1''"
  "search_url (str ''music.amazon.com'') (str ''x'')
      \<noteq> str ''https://search.yahoo.com/search?p=site:music.amazon.com/tracks+x&nojs=1''"
  by (simp_all add: search_url_def str_def)

lemma sample_track_unreachable:
  "getTrack sample_client (sample_env search_only_net table) (str ''B079'') = Inl RequestFailed"
  by (simp add: getTrack_def fetch_eval search_only_net_def str_def)

lemma sample_meta:
  "parseOpenGraph (sample_env net table) sample_track_page u =
     (initial_metadata u)\<lparr> title := str ''Whatever It Takes - Imagine Dragons'',
        artist := JStr (str ''Imagine Dragons'') \<rparr>"
  by (simp add: sample_track_page_def og_eval re_eval)

lemma empty_meta: "parseOpenGraph (sample_env net table) [] u = initial_metadata u"
  by (simp add: og_eval re_eval)

lemma linked_album_parsed:
  "parseUrl (str ''https://music.amazon.com/albums/B07A'')
      = Some \<lparr> parsed_type = str ''albums'', parsed_id = str ''B07A'' \<rparr>"
  by (simp add: parseUrl_def URL_PATTERN_def re_eval)

lemma linked_meta:
  "parseOpenGraph (sample_env net table) linked_track_page u =
     (initial_metadata u)\<lparr> title := str ''T'',
        albumUrl := str ''https://music.amazon.com/albums/B07A'' \<rparr>"
  by (simp add: linked_track_page_def og_eval re_eval)

lemma surrogate_meta:
  "parseOpenGraph (sample_env net [(surrogate_json_text, surrogate_json)])
       surrogate_track_page u =
     (initial_metadata u)\<lparr> title := str ''T'', album := JStr [55357],
        albumUrl := str ''https://music.amazon.com/albums/B07A'' \<rparr>"
  by (simp add: surrogate_track_page_def linked_track_page_def surrogate_json_text_def
      surrogate_json_def og_eval re_eval)

lemma unknown_album_encoded:
  "sample_encodeURIComponent (str ''Unknown Album'') = Some (str ''Unknown%20Album'')"
  by (simp add: str_def isUnreserved_def isAlnum_def utf8_def percent_def hex_digit_def)

lemma lone_surrogate_encoded: "sample_encodeURIComponent [55357] = None"
  by simp

section \<open>The assemblers\<close>

lemma getTrack_result:
  assumes "getTrack c e ident = Inr (Some t)"
  shows "track_id t = ident \<and> track_title t = Some (track_name t)"
  using assms
  by (auto simp: getTrack_def split: sum.splits if_splits prod.splits)

text \<open>
  C6. For each of the five kinds of resource: when the fetch succeeds and the title of the
  extracted metadata is empty, the assembler returns \<open>null\<close> (here \<open>Inr None\<close>), and raises
  no error.
\<close>

theorem empty_title_is_not_found:
  "(\<forall>m. fetchMetadata c e (str ''/tracks/'' @ ident) = Inr m \<and> title m = []
        \<longrightarrow> getTrack c e ident = Inr None) \<and>
   (\<forall>m. fetchMetadata c e (str ''/albums/'' @ ident) = Inr m \<and> title m = []
        \<longrightarrow> getAlbum c e ident = Inr None) \<and>
   (\<forall>m. fetchMetadata c e (str ''/artists/'' @ ident) = Inr m \<and> title m = []
        \<longrightarrow> getArtist c e ident = Inr None) \<and>
   (\<forall>m. fetchMetadata c e (str ''/playlists/'' @ ident) = Inr m \<and> title m = []
        \<longrightarrow> getPlaylist c e ident = Inr None) \<and>
   (\<forall>m. fetchMetadata c e (str ''/user-playlists/'' @ ident) = Inr m \<and> title m = []
        \<longrightarrow> getUserPlaylist c e ident = Inr None)"
  by (simp add: getTrack_def getAlbum_def getArtist_def getPlaylist_def getUserPlaylist_def)

text \<open>The theorem on a network that serves an empty page, which has no title.\<close>

theorem empty_title_is_not_found_witness:
  "getTrack sample_client (sample_env empty_page_net []) (str ''B079'') = Inr None \<and>
   getAlbum sample_client (sample_env empty_page_net []) (str ''B079'') = Inr None \<and>
   getArtist sample_client (sample_env empty_page_net []) (str ''B079'') = Inr None \<and>
   getPlaylist sample_client (sample_env empty_page_net []) (str ''B079'') = Inr None \<and>
   getUserPlaylist sample_client (sample_env empty_page_net []) (str ''B079'') = Inr None"
proof -
  have "\<exists>m. fetchMetadata sample_client (sample_env empty_page_net []) (p @ str ''B079'') = Inr m
          \<and> title m = []" for p
    by (simp add: fetchMetadata_def empty_page_net_def empty_meta initial_metadata_def)
  then show ?thesis
    using empty_title_is_not_found
      [of sample_client "sample_env empty_page_net []" "str ''B079''"]
    by metis
qed

text \<open>
  The enrichment of a track from its album, where the search link can be built. Let the
  metadata extracted for a track have a title and an \<open>albumUrl\<close> that does not lead to
  album data: it does not parse, or the album assembler raises, or the album assembler
  returns \<open>null\<close>. If \<open>encodeURIComponent\<close> accepts the album name taken from the
  metadata (\<open>Unknown Album\<close> when it is empty), then \<open>getTrack\<close> returns a track with the
  artist and album names taken from the metadata (\<open>Unknown Artist\<close> and \<open>Unknown Album\<close>
  when empty), whose album URL is the search link built from the encoded album name.
\<close>

lemma album_enrichment_fails_open:
  assumes "fetchMetadata c e (str ''/tracks/'' @ ident) = Inr m"
    and "title m \<noteq> []"
    and "albumUrl m \<noteq> []"
    and "parseUrl (albumUrl m) = None \<or>
         (\<exists>p. parseUrl (albumUrl m) = Some p \<and>
              (getAlbum c e (parsed_id p) = Inr None \<or>
               (\<exists>err. getAlbum c e (parsed_id p) = Inl err)))"
    and "albumName = (if truthy (album m) then album m else JStr (str ''Unknown Album''))"
    and "to_string e albumName = Some s"
    and "encodeURIComponent e s = Some enc"
  shows "getTrack c e ident = Inr (Some
           \<lparr> track_id = ident, track_name = title m, track_title = Some (title m),
             track_artist = \<lparr> artist_name = (if truthy (artist m) then artist m
                                              else JStr (str ''Unknown Artist'')),
                              artist_url = Some [] \<rparr>,
             track_duration = duration m, track_url = url m, track_image = Some (image m),
             track_album = \<lparr> album_name = albumName,
                             album_url = Some (str ''https://music.amazon.com/search/'' @ enc) \<rparr> \<rparr>)"
proof -
  have "enrich_from_album c e m names = names" for names
    using assms(3,4) by (auto simp: enrich_from_album_def)
  then show ?thesis
    using assms(1,2,5,6,7) by (simp add: getTrack_def search_link_def)
qed

text \<open>
  So it is on the track page that links to an album which cannot be fetched: the track
  comes back with the default names and the search link for \<open>Unknown Album\<close>.
\<close>

lemma album_enrichment_fails_open_example:
  "getTrack sample_client (sample_env linked_track_net []) (str ''B079'') = Inr (Some
     \<lparr> track_id = str ''B079'', track_name = str ''T'', track_title = Some (str ''T''),
       track_artist = \<lparr> artist_name = JStr (str ''Unknown Artist''), artist_url = Some [] \<rparr>,
       track_duration = 0, track_url = str ''https://music.amazon.com/tracks/B079'',
       track_image = Some [],
       track_album = \<lparr> album_name = JStr (str ''Unknown Album''),
         album_url = Some (str ''https://music.amazon.com/search/Unknown%20Album'') \<rparr> \<rparr>)"
proof -
  let ?e = "sample_env linked_track_net []"
  let ?u = "str ''https://music.amazon.com/tracks/B079''"
  let ?m = "(initial_metadata ?u)\<lparr> title := str ''T'',
              albumUrl := str ''https://music.amazon.com/albums/B07A'' \<rparr>"
  have u: "request_url sample_client (str ''/tracks/'' @ str ''B079'') = ?u"
    by (simp add: fetch_eval str_def)
  have 1: "fetchMetadata sample_client ?e (str ''/tracks/'' @ str ''B079'') = Inr ?m"
    unfolding fetchMetadata_def u by (simp add: linked_track_net_def linked_meta)
  have 2: "title ?m \<noteq> []" "albumUrl ?m \<noteq> []" by (simp_all add: str_def)
  have "getAlbum sample_client ?e (str ''B07A'') = Inl RequestFailed"
    by (simp add: getAlbum_def fetch_eval linked_track_net_def str_def)
  then have 3: "parseUrl (albumUrl ?m) = None \<or>
         (\<exists>p. parseUrl (albumUrl ?m) = Some p \<and>
              (getAlbum sample_client ?e (parsed_id p) = Inr None \<or>
               (\<exists>err. getAlbum sample_client ?e (parsed_id p) = Inl err)))"
    by (simp add: linked_album_parsed)
  have 4: "JStr (str ''Unknown Album'')
      = (if truthy (album ?m) then album ?m else JStr (str ''Unknown Album''))"
    by (simp add: initial_metadata_def)
  have 5: "to_string ?e (JStr (str ''Unknown Album'')) = Some (str ''Unknown Album'')"
    by (simp add: to_string_def)
  have 6: "encodeURIComponent ?e (str ''Unknown Album'') = Some (str ''Unknown%20Album'')"
    by (simp add: unknown_album_encoded)
  show ?thesis
    using album_enrichment_fails_open [OF 1 2 3 4 5 6]
    by (simp add: initial_metadata_def) (simp add: str_def)
qed

text \<open>
  C7. The enrichment of a track from its album is to fail open: when the \<open>albumUrl\<close> of
  the extracted metadata does not lead to album data, \<open>getTrack\<close> is still to return a
  track, with the names taken from the metadata and the search link as its album URL. The
  code does not at this input. On the page whose structured data names the album by a lone
  surrogate, the metadata has a title and an \<open>albumUrl\<close>, the \<open>albumUrl\<close> parses, the
  album cannot be fetched, and \<open>getTrack\<close> raises \<open>URIError\<close>: it is thrown by
  \<open>encodeURIComponent\<close> where the search link is built, after the \<open>try\<close> of the
  enrichment.
\<close>

theorem getTrack_raises_URIError:
  "fetchMetadata sample_client
       (sample_env surrogate_track_net [(surrogate_json_text, surrogate_json)])
       (str ''/tracks/'' @ str ''B079'')
     = Inr \<lparr> url = str ''https://music.amazon.com/tracks/B079'', title = str ''T'',
            description = [], image = [], type = [], site_name = [], audio = [],
            artist = JStr [], album = JStr [55357],
            albumUrl = str ''https://music.amazon.com/albums/B07A'', duration = 0 \<rparr> \<and>
   parseUrl (str ''https://music.amazon.com/albums/B07A'')
     = Some \<lparr> parsed_type = str ''albums'', parsed_id = str ''B07A'' \<rparr> \<and>
   getAlbum sample_client
       (sample_env surrogate_track_net [(surrogate_json_text, surrogate_json)]) (str ''B07A'')
     = Inl RequestFailed \<and>
   getTrack sample_client
       (sample_env surrogate_track_net [(surrogate_json_text, surrogate_json)]) (str ''B079'')
     = Inl URIError"
proof -
  let ?e = "sample_env surrogate_track_net [(surrogate_json_text, surrogate_json)]"
  let ?u = "str ''https://music.amazon.com/tracks/B079''"
  have u: "request_url sample_client (str ''/tracks/'' @ str ''B079'') = ?u"
    by (simp add: fetch_eval str_def)
  have 1: "fetchMetadata sample_client ?e (str ''/tracks/'' @ str ''B079'')
      = Inr ((initial_metadata ?u)\<lparr> title := str ''T'', album := JStr [55357],
               albumUrl := str ''https://music.amazon.com/albums/B07A'' \<rparr>)"
    unfolding fetchMetadata_def u by (simp add: surrogate_track_net_def surrogate_meta)
  have 2: "getAlbum sample_client ?e (str ''B07A'') = Inl RequestFailed"
    by (simp add: getAlbum_def fetch_eval surrogate_track_net_def str_def)
  have 3: "getTrack sample_client ?e (str ''B079'') = Inl URIError"
    unfolding getTrack_def 1
    by (simp add: enrich_from_album_def linked_album_parsed 2 search_link_def to_string_def)
       (simp add: str_def)
  show ?thesis
    using 1 2 3 linked_album_parsed by (simp add: initial_metadata_def)
qed

section \<open>search\<close>

lemma placeholder_id [simp]: "track_id (placeholder l p) = parsed_id p"
  by (simp add: placeholder_def)

lemma below_limit:
  "\<not> length_ge (length results) (Num r) \<Longrightarrow> int (length (results @ [t])) \<le> max 0 \<lceil>r\<rceil>"
proof -
  assume "\<not> length_ge (length results) (Num r)"
  then have "of_int (int (length results)) < r" by (simp add: length_ge_def)
  then have "int (length results) < \<lceil>r\<rceil>" by (simp only: less_ceiling_iff)
  then show ?thesis by simp
qed

lemma first_pass_length:
  "int (length results) \<le> max 0 \<lceil>r\<rceil> \<Longrightarrow>
   int (length (fst (first_pass c e (Num r) ms (results, seen)))) \<le> max 0 \<lceil>r\<rceil>"
proof (induction ms arbitrary: results seen)
  case Nil
  then show ?case by simp
next
  case (Cons m ms)
  show ?case
  proof (cases "length_ge (length results) (Num r)")
    case True
    with Cons.prems show ?thesis by simp
  next
    case False
    have step: "int (length (results @ [t])) \<le> max 0 \<lceil>r\<rceil>" for t
      using False by (rule below_limit)
    show ?thesis
      using False Cons.prems Cons.IH[of results] Cons.IH[OF step]
      by (auto split: option.splits sum.splits)
  qed
qed

lemma second_pass_length:
  "int (length results) \<le> max 0 \<lceil>r\<rceil> \<Longrightarrow>
   int (length (fst (second_pass e (Num r) ms (results, seen)))) \<le> max 0 \<lceil>r\<rceil>"
proof (induction ms arbitrary: results seen)
  case Nil
  then show ?case by simp
next
  case (Cons m ms)
  show ?case
  proof (cases "length_ge (length results) (Num r)")
    case True
    with Cons.prems show ?thesis by simp
  next
    case False
    have step: "int (length (results @ [t])) \<le> max 0 \<lceil>r\<rceil>" for t
      using False by (rule below_limit)
    show ?thesis
      using False Cons.prems Cons.IH[of results] Cons.IH[OF step]
      by (auto split: option.splits)
  qed
qed

text \<open>Below every length, the limit \<open>-Infinity\<close> stops both loops at once.\<close>

lemma first_pass_NegInfinity: "first_pass c e NegInfinity ms st = st"
  by (cases ms; cases st) (simp_all add: length_ge_def)

lemma second_pass_NegInfinity: "second_pass e NegInfinity ms st = st"
  by (cases ms; cases st) (simp_all add: length_ge_def)

text \<open>
  The ids of the results are distinct and all in \<open>processedIds\<close>; a track is pushed only
  under an id that was not there.
\<close>

lemma first_pass_distinct:
  "distinct (map track_id results) \<Longrightarrow> track_id ` set results \<subseteq> seen \<Longrightarrow>
   distinct (map track_id (fst (first_pass c e limit ms (results, seen)))) \<and>
   track_id ` set (fst (first_pass c e limit ms (results, seen)))
     \<subseteq> snd (first_pass c e limit ms (results, seen))"
proof (induction ms arbitrary: results seen)
  case Nil
  then show ?case by simp
next
  case (Cons m ms)
  show ?case
  proof (cases "length_ge (length results) limit")
    case True
    with Cons.prems show ?thesis by simp
  next
    case False
    show ?thesis
    proof (cases "track_link e m")
      case None
      with False Cons show ?thesis by simp
    next
      case (Some parsed)
      show ?thesis
      proof (cases "parsed_id parsed \<in> seen")
        case True
        with False Some Cons show ?thesis by simp
      next
        case new: False
        let ?r = "case getTrack c e (parsed_id parsed) of
                    Inr (Some trackData) \<Rightarrow> results @ [trackData]
                  | Inr None \<Rightarrow> results
                  | Inl err \<Rightarrow> results @ [placeholder (str ''Track'') parsed]"
        have d: "distinct (map track_id ?r)"
          using Cons.prems new
          by (auto split: sum.splits option.splits dest!: getTrack_result)
        have s: "track_id ` set ?r \<subseteq> insert (parsed_id parsed) seen"
          using Cons.prems
          by (auto split: sum.splits option.splits dest!: getTrack_result)
        show ?thesis
          using False Some new Cons.IH[OF d s] by simp
      qed
    qed
  qed
qed

lemma second_pass_distinct:
  "distinct (map track_id results) \<Longrightarrow> track_id ` set results \<subseteq> seen \<Longrightarrow>
   distinct (map track_id (fst (second_pass e limit ms (results, seen))))"
proof (induction ms arbitrary: results seen)
  case Nil
  then show ?case by simp
next
  case (Cons m ms)
  show ?case
  proof (cases "length_ge (length results) limit")
    case True
    with Cons.prems show ?thesis by simp
  next
    case False
    show ?thesis
    proof (cases "track_link e m")
      case None
      with False Cons show ?thesis by simp
    next
      case (Some parsed)
      show ?thesis
      proof (cases "parsed_id parsed \<in> seen")
        case True
        with False Some Cons show ?thesis by simp
      next
        case new: False
        let ?r = "results @ [placeholder (str ''Result'') parsed]"
        have d: "distinct (map track_id ?r)"
          using Cons.prems new by auto
        have s: "track_id ` set ?r \<subseteq> insert (parsed_id parsed) seen"
          using Cons.prems by auto
        show ?thesis
          using False Some new Cons.IH[OF d s] by simp
      qed
    qed
  qed
qed

lemma search_try_distinct:
  assumes "search_try c e query limit = Inr ts"
  shows "distinct (map track_id ts)"
proof -
  have d0: "distinct (map track_id ([]::Track list))" "track_id ` set ([]::Track list) \<subseteq> {}"
    by simp_all
  show ?thesis
    using assms first_pass_distinct[OF d0, of c e limit "exec_all linkRegex html" for html]
      second_pass_distinct
    by (auto simp: search_try_def split_beta split: option.splits fetch_result.splits
        if_splits sum.splits)
qed

lemma search_try_bounded:
  assumes "search_try c e query (Num r) = Inr ts"
  shows "int (length ts) \<le> max 0 \<lceil>r\<rceil>"
proof -
  have l0: "int (length ([]::Track list)) \<le> max 0 \<lceil>r\<rceil>" by simp
  show ?thesis
    using assms first_pass_length[OF l0, of c e "exec_all linkRegex html" "{}" for html]
      second_pass_length
    by (auto simp: search_try_def split_beta split: option.splits fetch_result.splits
        if_splits sum.splits)
qed

lemma search_try_NegInfinity:
  assumes "search_try c e query NegInfinity = Inr ts"
  shows "ts = []"
  using assms
  by (auto simp: search_try_def first_pass_NegInfinity second_pass_NegInfinity
      split: option.splits fetch_result.splits if_splits sum.splits)

text \<open>
  C4, as amended. For every query, every limit (20 when none is given) and every platform,
  \<open>search\<close> returns a list with no two tracks of the same id. When the limit is an
  integer, the length of the list is at most the limit if the limit is not negative, and
  the list is empty if it is negative. In general, for a finite limit the length is at most
  the least integer that is not below the limit, or 0 if that is negative, and for the
  limit \<open>-Infinity\<close> the list is empty. For \<open>NaN\<close> and \<open>Infinity\<close> no bound is stated.
\<close>

theorem search_bounded_distinct:
  "\<exists>ts. search c e query limit = Inr ts \<and> distinct (map track_id ts) \<and>
        (\<forall>n. limit_or_default limit = Num (of_int n) \<longrightarrow> int (length ts) \<le> max 0 n) \<and>
        (\<forall>r. limit_or_default limit = Num r \<longrightarrow> int (length ts) \<le> max 0 \<lceil>r\<rceil>) \<and>
        (limit_or_default limit = NegInfinity \<longrightarrow> ts = [])"
proof (cases "search_try c e query (limit_or_default limit)")
  case (Inl err)
  then show ?thesis by (simp add: search_def)
next
  case (Inr ts)
  have 1: "distinct (map track_id ts)" using Inr by (rule search_try_distinct)
  have 2: "\<forall>r. limit_or_default limit = Num r \<longrightarrow> int (length ts) \<le> max 0 \<lceil>r\<rceil>"
    using Inr search_try_bounded by auto
  have 3: "\<forall>n. limit_or_default limit = Num (of_int n) \<longrightarrow> int (length ts) \<le> max 0 n"
  proof (intro allI impI)
    fix n
    assume "limit_or_default limit = Num (of_int n)"
    then have "int (length ts) \<le> max 0 \<lceil>(of_int n :: rat)\<rceil>" using 2 by blast
    then show "int (length ts) \<le> max 0 n" by simp
  qed
  have 4: "limit_or_default limit = NegInfinity \<longrightarrow> ts = []"
    using Inr search_try_NegInfinity by auto
  show ?thesis using Inr 1 2 3 4 by (simp add: search_def)
qed

text \<open>
  The theorem on the network where only the search page can be fetched, with the limit 5:
  the list has at most 5 tracks, with distinct ids.
\<close>

theorem search_bounded_distinct_witness:
  "\<exists>ts. search sample_client (sample_env search_only_net []) (str ''x'') (Some (Num 5)) = Inr ts
        \<and> distinct (map track_id ts) \<and> int (length ts) \<le> 5"
proof -
  have l: "limit_or_default (Some (Num 5)) = Num (of_int 5)"
    by (simp add: limit_or_default_def)
  obtain ts where ts:
    "search sample_client (sample_env search_only_net []) (str ''x'') (Some (Num 5)) = Inr ts"
    "distinct (map track_id ts)"
    "\<forall>n. limit_or_default (Some (Num 5)) = Num (of_int n) \<longrightarrow> int (length ts) \<le> max 0 n"
    using search_bounded_distinct
      [of sample_client "sample_env search_only_net []" "str ''x''" "Some (Num 5)"]
    by blast
  from ts(3) l have "int (length ts) \<le> max 0 5" by blast
  then show ?thesis using ts(1,2) by auto
qed

lemma sample_search_one:
  assumes "\<not> length_ge 0 limit"
  shows "search sample_client (sample_env search_only_net []) (str ''x'') (Some limit)
     = Inr [placeholder (str ''Track'') \<lparr> parsed_type = str ''tracks'', parsed_id = str ''B079'' \<rparr>]"
  unfolding search_def search_try_def
  using assms
  by (simp add: limit_or_default_def sample_query sample_search_url search_only_net_def
       sample_links sample_track_link[unfolded One_nat_def] sample_track_unreachable)

text \<open>
  C4 as it is written fails at a limit that is negative, at one that is not an integer and
  at \<open>NaN\<close>. With the limit \<open>-1\<close> the search returns the empty list, whose length 0 is not
  at most \<open>-1\<close>. With the limit \<open>1/2\<close>, and with \<open>NaN\<close> (which \<open>index.ts\<close> passes for a
  \<open>limit\<close> parameter that is not a number), the search returns one track, and 1 is not at
  most \<open>1/2\<close> and not at most \<open>NaN\<close>.
\<close>

theorem search_limit_counterexample:
  "search sample_client (sample_env search_only_net []) (str ''x'') (Some (Num (- 1))) = Inr [] \<and>
   \<not> at_most (length ([] :: Track list)) (Num (- 1)) \<and>
   search sample_client (sample_env search_only_net []) (str ''x'') (Some (Num (1 / 2)))
     = Inr [placeholder (str ''Track'') \<lparr> parsed_type = str ''tracks'', parsed_id = str ''B079'' \<rparr>] \<and>
   \<not> at_most (length [placeholder (str ''Track'')
          \<lparr> parsed_type = str ''tracks'', parsed_id = str ''B079'' \<rparr>]) (Num (1 / 2)) \<and>
   search sample_client (sample_env search_only_net []) (str ''x'') (Some NaN)
     = Inr [placeholder (str ''Track'') \<lparr> parsed_type = str ''tracks'', parsed_id = str ''B079'' \<rparr>] \<and>
   \<not> at_most (length [placeholder (str ''Track'')
          \<lparr> parsed_type = str ''tracks'', parsed_id = str ''B079'' \<rparr>]) NaN"
proof -
  have 1: "search sample_client (sample_env search_only_net []) (str ''x'') (Some (Num (- 1)))
      = Inr []"
    unfolding search_def search_try_def
    by (simp add: limit_or_default_def length_ge_def sample_query sample_search_url
        search_only_net_def sample_links)
  have 2: "\<not> length_ge 0 (Num (1 / 2))" "\<not> length_ge 0 NaN"
    by (simp_all add: length_ge_def)
  show ?thesis
    using 1 sample_search_one[OF 2(1)] sample_search_one[OF 2(2)]
    by (simp add: at_most_def)
qed

text \<open>
  C5. \<open>search\<close> never raises: for every query, limit and platform it returns a list. The
  list is empty when the query cannot be encoded, when the request for the search page
  fails, when the response is not OK, when its body cannot be read, and when neither
  search page holds a redirect link.
\<close>

theorem search_never_raises:
  "(\<exists>ts. search c e query limit = Inr ts) \<and>
   (encodeURIComponent e query = None \<longrightarrow> search c e query limit = Inr []) \<and>
   (\<forall>q. encodeURIComponent e query = Some q \<longrightarrow>
      ((\<exists>err. fetch e (search_url (str ''music.amazon.com/tracks'') q) = Rejects err)
         \<longrightarrow> search c e query limit = Inr []) \<and>
      ((\<exists>status body. fetch e (search_url (str ''music.amazon.com/tracks'') q)
            = Response False status body)
         \<longrightarrow> search c e query limit = Inr []) \<and>
      ((\<exists>status err. fetch e (search_url (str ''music.amazon.com/tracks'') q)
            = Response True status (Inl err))
         \<longrightarrow> search c e query limit = Inr []) \<and>
      ((\<exists>status html. fetch e (search_url (str ''music.amazon.com/tracks'') q)
            = Response True status (Inr html) \<and> exec_all linkRegex html = []) \<and>
       (\<forall>status html. fetch e (search_url (str ''music.amazon.com'') q)
            = Response True status (Inr html) \<longrightarrow> exec_all linkRegex html = [])
         \<longrightarrow> search c e query limit = Inr []))"
  by (auto simp: search_def search_try_def split: sum.splits option.splits
      fetch_result.splits if_splits)

text \<open>The theorem on a network that is down.\<close>

theorem search_never_raises_witness:
  "search sample_client (sample_env unreachable_net []) (str ''x'') None = Inr []"
  using search_never_raises
    [of sample_client "sample_env unreachable_net []" "str ''x''" None]
  by (simp add: sample_query unreachable_net_def)

section \<open>Name and title of a track\<close>

lemma first_pass_titles:
  "\<forall>t\<in>set results. track_title t = Some (track_name t) \<or>
       (track_title t = None \<and> (\<exists>p. t = placeholder (str ''Track'') p)) \<Longrightarrow>
   \<forall>t\<in>set (fst (first_pass c e limit ms (results, seen))).
      track_title t = Some (track_name t) \<or>
      (track_title t = None \<and> (\<exists>p. t = placeholder (str ''Track'') p))"
proof (induction ms arbitrary: results seen)
  case Nil
  then show ?case by simp
next
  case (Cons m ms)
  show ?case
  proof (cases "length_ge (length results) limit")
    case True
    with Cons.prems show ?thesis by simp
  next
    case False
    show ?thesis
    proof (cases "track_link e m")
      case None
      with False Cons show ?thesis by simp
    next
      case (Some parsed)
      show ?thesis
      proof (cases "parsed_id parsed \<in> seen")
        case True
        with False Some Cons show ?thesis by simp
      next
        case new: False
        let ?r = "case getTrack c e (parsed_id parsed) of
                    Inr (Some trackData) \<Rightarrow> results @ [trackData]
                  | Inr None \<Rightarrow> results
                  | Inl err \<Rightarrow> results @ [placeholder (str ''Track'') parsed]"
        have "track_title (placeholder (str ''Track'') parsed) = None"
          by (simp add: placeholder_def)
        then have d: "\<forall>t\<in>set ?r. track_title t = Some (track_name t) \<or>
            (track_title t = None \<and> (\<exists>p. t = placeholder (str ''Track'') p))"
          using Cons.prems
          by (auto split: sum.splits option.splits dest!: getTrack_result)
        show ?thesis
          using False Some new Cons.IH[OF d] by simp
      qed
    qed
  qed
qed

lemma second_pass_titles:
  "\<forall>t\<in>set results. track_title t = None \<and> (\<exists>p. t = placeholder (str ''Result'') p) \<Longrightarrow>
   \<forall>t\<in>set (fst (second_pass e limit ms (results, seen))).
      track_title t = None \<and> (\<exists>p. t = placeholder (str ''Result'') p)"
proof (induction ms arbitrary: results seen)
  case Nil
  then show ?case by simp
next
  case (Cons m ms)
  show ?case
  proof (cases "length_ge (length results) limit")
    case True
    with Cons.prems show ?thesis by simp
  next
    case False
    have "track_title (placeholder (str ''Result'') p) = None" for p
      by (simp add: placeholder_def)
    then have d: "\<forall>t\<in>set (results @ [placeholder (str ''Result'') p]).
        track_title t = None \<and> (\<exists>p. t = placeholder (str ''Result'') p)" for p
      using Cons.prems by auto
    show ?thesis
      using False Cons.prems Cons.IH[of results] Cons.IH[OF d]
      by (auto split: option.splits)
  qed
qed

lemma search_try_titles:
  assumes "search_try c e query limit = Inr ts"
  shows "\<forall>t\<in>set ts. track_title t = Some (track_name t) \<or>
           (track_title t = None \<and>
            (\<exists>p. t = placeholder (str ''Track'') p \<or> t = placeholder (str ''Result'') p))"
proof -
  have f: "\<forall>t\<in>set (fst (first_pass c e limit ms ([], {}))).
      track_title t = Some (track_name t) \<or>
      (track_title t = None \<and> (\<exists>p. t = placeholder (str ''Track'') p))" for ms
    by (rule first_pass_titles) simp
  have s: "\<forall>t\<in>set (fst (second_pass e limit ms ([], seen))).
      track_title t = None \<and> (\<exists>p. t = placeholder (str ''Result'') p)" for ms seen
    by (rule second_pass_titles) simp
  show ?thesis
    using assms
    apply (simp add: search_try_def split_beta split: option.splits fetch_result.splits
        if_splits sum.splits)
    using f s apply blast+
    done
qed

text \<open>
  C9, as amended. Every track that the track assembler returns has a title equal to its
  name, and so has every track that \<open>search\<close> obtains from the assembler; every other track
  of a search result is a placeholder, which has a name and no title.
\<close>

theorem track_name_is_title:
  "(\<forall>t. getTrack c e ident = Inr (Some t) \<longrightarrow> track_title t = Some (track_name t)) \<and>
   (\<forall>ts. search c e query limit = Inr ts \<longrightarrow>
      (\<forall>t\<in>set ts. track_title t = Some (track_name t) \<or>
         (track_title t = None \<and>
          (\<exists>p. t = placeholder (str ''Track'') p \<or> t = placeholder (str ''Result'') p))))"
proof -
  have "\<forall>t. getTrack c e ident = Inr (Some t) \<longrightarrow> track_title t = Some (track_name t)"
    using getTrack_result by blast
  moreover have "\<forall>ts. search c e query limit = Inr ts \<longrightarrow>
      (\<forall>t\<in>set ts. track_title t = Some (track_name t) \<or>
         (track_title t = None \<and>
          (\<exists>p. t = placeholder (str ''Track'') p \<or> t = placeholder (str ''Result'') p)))"
    using search_try_titles[of c e query "limit_or_default limit"]
    by (auto simp: search_def split: sum.splits)
  ultimately show ?thesis by blast
qed

text \<open>
  The theorem on the network that serves the sample track page: the assembler returns a
  track, and its title is its name.
\<close>

theorem track_name_is_title_witness:
  "\<exists>t. getTrack sample_client (sample_env track_page_net []) (str ''B079'') = Inr (Some t) \<and>
       track_name t = str ''Whatever It Takes - Imagine Dragons'' \<and>
       track_title t = Some (str ''Whatever It Takes - Imagine Dragons'')"
proof -
  let ?e = "sample_env track_page_net []"
  have "\<exists>t. getTrack sample_client ?e (str ''B079'') = Inr (Some t) \<and>
       track_name t = str ''Whatever It Takes - Imagine Dragons''"
    by (simp add: getTrack_def fetchMetadata_def track_page_net_def sample_meta
        enrich_from_album_def initial_metadata_def search_link_def to_string_def
        unknown_album_encoded str_def)
  then show ?thesis
    using track_name_is_title [of sample_client ?e "str ''B079''"] by auto
qed

text \<open>
  C9 as it is written fails on the placeholders. On the network where only the search page
  can be fetched, \<open>search\<close> returns one placeholder: its name is \<open>Track B079\<close> and it has no
  title.
\<close>

theorem placeholder_title_counterexample:
  "search sample_client (sample_env search_only_net []) (str ''x'') (Some (Num 5))
     = Inr [placeholder (str ''Track'') \<lparr> parsed_type = str ''tracks'', parsed_id = str ''B079'' \<rparr>]
   \<and> track_name (placeholder (str ''Track'')
         \<lparr> parsed_type = str ''tracks'', parsed_id = str ''B079'' \<rparr>) = str ''Track B079''
   \<and> track_title (placeholder (str ''Track'')
         \<lparr> parsed_type = str ''tracks'', parsed_id = str ''B079'' \<rparr>) = None"
proof -
  have "\<not> length_ge 0 (Num 5)" by (simp add: length_ge_def)
  then have "search sample_client (sample_env search_only_net []) (str ''x'') (Some (Num 5))
     = Inr [placeholder (str ''Track'') \<lparr> parsed_type = str ''tracks'', parsed_id = str ''B079'' \<rparr>]"
    by (rule sample_search_one)
  then show ?thesis by (simp add: placeholder_def str_def)
qed

section \<open>The stages of parseOpenGraph\<close>

lemma parseOpenGraph_stages: "parseOpenGraph e html u = after_stage e html u 5"
  by (simp add: parseOpenGraph_def eval_nat_numeral)

lemma after_stage_unfold:
  "after_stage e html u 1 = stage_meta html (initial_metadata u)"
  "after_stage e html u 2 = stage_title html (after_stage e html u 1)"
  "after_stage e html u 3 = stage_json_ld e html (after_stage e html u 2)"
  "after_stage e html u 4 = stage_split_title (after_stage e html u 3)"
  "after_stage e html u 5 = stage_description (after_stage e html u 4)"
  by (simp_all add: eval_nat_numeral)

text \<open>What each stage can write.\<close>

lemma meta_tag_fields:
  "url (meta_tag m c) = url m \<and> artist (meta_tag m c) = artist m \<and>
   album (meta_tag m c) = album m \<and> duration (meta_tag m c) = duration m"
  by (simp add: meta_tag_def split: option.splits)

lemma stage_meta_fields:
  "url (stage_meta html m) = url m \<and> artist (stage_meta html m) = artist m \<and>
   album (stage_meta html m) = album m \<and> duration (stage_meta html m) = duration m"
proof -
  have "url (foldl meta_tag m cs) = url m \<and> artist (foldl meta_tag m cs) = artist m \<and>
     album (foldl meta_tag m cs) = album m \<and> duration (foldl meta_tag m cs) = duration m" for cs
    by (induction cs arbitrary: m) (simp_all add: meta_tag_fields)
  then show ?thesis by (simp add: stage_meta_def)
qed

lemma stage_title_shape:
  "stage_title html m = m\<lparr>title := title (stage_title html m)\<rparr> \<and>
   (title m \<noteq> [] \<longrightarrow> title (stage_title html m) = title m)"
  by (simp add: stage_title_def split: option.splits)

lemma js_or_truthy: "truthy b \<or> b = JStr [] \<Longrightarrow> truthy (js_or a b) \<or> js_or a b = JStr []"
  by (auto simp: js_or_def split: option.splits)

lemma read_duration_shape:
  "read_duration e j m = m\<lparr>duration := duration (read_duration e j m)\<rparr>"
  unfolding read_duration_def Let_def by (simp split: option.splits)

lemma read_json_ld_shape:
  "read_json_ld e j m = m\<lparr>artist := artist (read_json_ld e j m),
     album := album (read_json_ld e j m), duration := duration (read_json_ld e j m)\<rparr>"
proof (cases "get_prop j (str ''@type'') = Some (JStr (str ''MusicRecording''))")
  case False
  then show ?thesis by (simp add: read_json_ld_def)
next
  case True
  define m1 where "m1 = (case get_prop j (str ''byArtist'') of
                   None \<Rightarrow> m
                 | Some a \<Rightarrow>
                     if truthy a
                     then m\<lparr>artist := js_or (get_prop a (str ''name''))
                                        (js_or (get_prop a (str ''@id'')) (JStr []))\<rparr>
                     else m)"
  define m2 where "m2 = (case get_prop j (str ''inAlbum'') of
                   None \<Rightarrow> m1
                 | Some a \<Rightarrow>
                     if truthy a
                     then m1\<lparr>album := js_or (get_prop a (str ''name'')) (JStr [])\<rparr>
                     else m1)"
  have r: "read_json_ld e j m = read_duration e j m2"
    unfolding read_json_ld_def m1_def m2_def Let_def using True by simp
  have 1: "m1 = m\<lparr>artist := artist m1\<rparr>"
    unfolding m1_def by (simp split: option.splits)
  have 2: "m2 = m1\<lparr>album := album m2\<rparr>"
    unfolding m2_def by (simp split: option.splits)
  have 3: "read_duration e j m2 = m2\<lparr>duration := duration (read_duration e j m2)\<rparr>"
    by (rule read_duration_shape)
  have "read_duration e j m2
      = m\<lparr>artist := artist m1, album := album m2, duration := duration (read_duration e j m2)\<rparr>"
    using 1 2 3 by (metis RawMetadata.update_convs(8,9))
  moreover have "artist (read_duration e j m2) = artist m1"
    using arg_cong[OF 3, of artist] arg_cong[OF 2, of artist] by simp
  moreover have "album (read_duration e j m2) = album m2"
    using arg_cong[OF 3, of album] by simp
  ultimately show ?thesis unfolding r by simp
qed

lemma read_json_ld_truthy:
  assumes "truthy (artist m) \<or> artist m = JStr []" "truthy (album m) \<or> album m = JStr []"
  shows "(truthy (artist (read_json_ld e j m)) \<or> artist (read_json_ld e j m) = JStr []) \<and>
         (truthy (album (read_json_ld e j m)) \<or> album (read_json_ld e j m) = JStr [])"
proof (cases "get_prop j (str ''@type'') = Some (JStr (str ''MusicRecording''))")
  case False
  then show ?thesis using assms by (simp add: read_json_ld_def)
next
  case True
  have t: "truthy (JStr []) \<or> JStr [] = JStr []" by simp
  note ja = js_or_truthy[OF js_or_truthy[OF t]] and jb = js_or_truthy[OF t]
  define m1 where "m1 = (case get_prop j (str ''byArtist'') of
                   None \<Rightarrow> m
                 | Some a \<Rightarrow>
                     if truthy a
                     then m\<lparr>artist := js_or (get_prop a (str ''name''))
                                        (js_or (get_prop a (str ''@id'')) (JStr []))\<rparr>
                     else m)"
  define m2 where "m2 = (case get_prop j (str ''inAlbum'') of
                   None \<Rightarrow> m1
                 | Some a \<Rightarrow>
                     if truthy a
                     then m1\<lparr>album := js_or (get_prop a (str ''name'')) (JStr [])\<rparr>
                     else m1)"
  have r: "read_json_ld e j m = read_duration e j m2"
    unfolding read_json_ld_def m1_def m2_def Let_def using True by simp
  have 1: "(truthy (artist m1) \<or> artist m1 = JStr []) \<and> album m1 = album m"
    unfolding m1_def using assms(1) ja by (simp split: option.splits)
  have 2: "(truthy (album m2) \<or> album m2 = JStr []) \<and> artist m2 = artist m1"
    unfolding m2_def using assms(2) 1 jb by (simp split: option.splits)
  have 3: "artist (read_duration e j m2) = artist m2 \<and> album (read_duration e j m2) = album m2"
    using arg_cong[OF read_duration_shape, of artist e j m2]
      arg_cong[OF read_duration_shape, of album e j m2] by simp
  show ?thesis unfolding r using 1 2 3 by simp
qed

lemma stage_json_ld_cases:
  "stage_json_ld e html m = m \<or> (\<exists>j. stage_json_ld e html m = read_json_ld e j m)"
  by (simp add: stage_json_ld_def split: option.splits json.splits) blast

lemma stage_json_ld_shape:
  "stage_json_ld e html m = m\<lparr>artist := artist (stage_json_ld e html m),
     album := album (stage_json_ld e html m), duration := duration (stage_json_ld e html m)\<rparr>"
  using stage_json_ld_cases[of e html m] read_json_ld_shape by auto

lemma stage_json_ld_truthy:
  assumes "truthy (artist m) \<or> artist m = JStr []" "truthy (album m) \<or> album m = JStr []"
  shows "(truthy (artist (stage_json_ld e html m)) \<or> artist (stage_json_ld e html m) = JStr [])
       \<and> (truthy (album (stage_json_ld e html m)) \<or> album (stage_json_ld e html m) = JStr [])"
proof -
  consider "stage_json_ld e html m = m" | j where "stage_json_ld e html m = read_json_ld e j m"
    using stage_json_ld_cases[of e html m] by blast
  then show ?thesis
  proof cases
    case 1
    then show ?thesis using assms by simp
  next
    case 2
    then show ?thesis using read_json_ld_truthy[OF assms, of e j] by simp
  qed
qed

lemma artist_from_title_shape:
  "artist_from_title seps m = m\<lparr>artist := artist (artist_from_title seps m)\<rparr>"
  by (induction seps) (simp_all add: Let_def)

lemma stage_split_title_shape:
  "stage_split_title m = m\<lparr>artist := artist (stage_split_title m)\<rparr> \<and>
   (truthy (artist m) \<longrightarrow> artist (stage_split_title m) = artist m) \<and>
   (truthy (artist (stage_split_title m)) \<or> artist (stage_split_title m) = artist m)"
proof -
  have "truthy (artist (artist_from_title seps m)) \<or> artist (artist_from_title seps m) = artist m"
    for seps
    by (induction seps) (simp_all add: Let_def)
  then show ?thesis
    using artist_from_title_shape[of separators m] by (simp add: stage_split_title_def)
qed

lemma stage_description_shape:
  "stage_description m = m\<lparr>album := album (stage_description m)\<rparr> \<and>
   (truthy (album m) \<longrightarrow> album (stage_description m) = album m)"
  by (simp add: stage_description_def Let_def split: option.splits)

section \<open>First writer wins, stage by stage\<close>

lemma kept_refl: "kept m m"
  by (simp add: kept_def)

lemma kept_trans: "kept m m' \<Longrightarrow> kept m' m'' \<Longrightarrow> kept m m''"
  unfolding kept_def by metis

lemma stages_before_json_ld:
  "artist (after_stage e html u 1) = JStr [] \<and> album (after_stage e html u 1) = JStr [] \<and>
   duration (after_stage e html u 1) = 0 \<and>
   artist (after_stage e html u 2) = JStr [] \<and> album (after_stage e html u 2) = JStr [] \<and>
   duration (after_stage e html u 2) = 0"
proof -
  let ?m1 = "after_stage e html u 1"
  have 1: "artist ?m1 = JStr [] \<and> album ?m1 = JStr [] \<and> duration ?m1 = 0"
    unfolding after_stage_unfold using stage_meta_fields[of html "initial_metadata u"]
    by (simp add: initial_metadata_def)
  have s: "stage_title html ?m1 = ?m1\<lparr>title := title (stage_title html ?m1)\<rparr>"
    using stage_title_shape by blast
  have "artist (stage_title html ?m1) = artist ?m1 \<and> album (stage_title html ?m1) = album ?m1
      \<and> duration (stage_title html ?m1) = duration ?m1"
    using arg_cong[OF s, of artist] arg_cong[OF s, of album] arg_cong[OF s, of duration]
    by simp
  with 1 show ?thesis by (simp add: after_stage_unfold(2))
qed

lemma stage_json_ld_truthy_here:
  "(truthy (artist (after_stage e html u 3)) \<or> artist (after_stage e html u 3) = JStr []) \<and>
   (truthy (album (after_stage e html u 3)) \<or> album (after_stage e html u 3) = JStr [])"
  unfolding after_stage_unfold(3)
  by (rule stage_json_ld_truthy) (simp_all add: stages_before_json_ld)

lemma kept_step: "kept (after_stage e html u k) (after_stage e html u (Suc k))"
proof -
  consider "k = 0" | "k = 1" | "k = 2" | "k = 3" | "k = 4" | "5 \<le> k" by linarith
  then show ?thesis
  proof cases
    case 1
    have "kept (initial_metadata u) (stage_meta html (initial_metadata u))"
      using stage_meta_fields[of html "initial_metadata u"]
      by (simp add: kept_def initial_metadata_def)
    with 1 show ?thesis by simp
  next
    case 2
    let ?m = "after_stage e html u 1"
    have "kept ?m (?m\<lparr>title := title (stage_title html ?m)\<rparr>)"
      using conjunct2[OF stage_title_shape[of html ?m]] by (simp add: kept_def)
    then have "kept ?m (stage_title html ?m)"
      by (subst conjunct1[OF stage_title_shape])
    with 2 show ?thesis by (simp add: after_stage_unfold)
  next
    case 3
    let ?m = "after_stage e html u 2"
    let ?r = "stage_json_ld e html ?m"
    have "kept ?m (?m\<lparr>artist := artist ?r, album := album ?r, duration := duration ?r\<rparr>)"
      using stages_before_json_ld[of e html u] by (simp add: kept_def)
    then have "kept ?m ?r"
      by (subst stage_json_ld_shape)
    with 3 show ?thesis by (simp add: eval_nat_numeral)
  next
    case 4
    let ?m = "after_stage e html u 3"
    have "artist ?m \<noteq> JStr [] \<longrightarrow> truthy (artist ?m)"
      using stage_json_ld_truthy_here[of e html u] by blast
    then have "kept ?m (?m\<lparr>artist := artist (stage_split_title ?m)\<rparr>)"
      using conjunct1[OF conjunct2[OF stage_split_title_shape[of ?m]]] by (simp add: kept_def)
    then have "kept ?m (stage_split_title ?m)"
      by (subst conjunct1[OF stage_split_title_shape])
    with 4 show ?thesis by (simp add: eval_nat_numeral)
  next
    case 5
    let ?m3 = "after_stage e html u 3"
    let ?m = "after_stage e html u 4"
    have "album (stage_split_title ?m3) = album ?m3"
      using arg_cong[OF conjunct1[OF stage_split_title_shape[of ?m3]], of album] by simp
    then have "album ?m = album ?m3" by (simp add: after_stage_unfold(4))
    then have "album ?m \<noteq> JStr [] \<longrightarrow> truthy (album ?m)"
      using stage_json_ld_truthy_here[of e html u] by auto
    then have "kept ?m (?m\<lparr>album := album (stage_description ?m)\<rparr>)"
      using conjunct2[OF stage_description_shape[of ?m]] by (simp add: kept_def)
    then have "kept ?m (stage_description ?m)"
      by (subst conjunct1[OF stage_description_shape])
    with 5 show ?thesis by (simp add: eval_nat_numeral)
  next
    case 6
    then show ?thesis by (simp add: kept_refl)
  qed
qed

text \<open>
  C2. For every markup, and for every field of the metadata: once the field holds a value
  other than its default after stage \<open>k\<close> of the extraction (1 the meta tags, 2 the
  \<open>title\<close> element, 3 the structured data, 4 the splitting of the title, 5 the
  description), it has the same value after every later stage \<open>j\<close>.
\<close>

theorem extraction_first_writer_wins:
  "k \<le> j \<Longrightarrow> kept (after_stage e html u k) (after_stage e html u j)"
proof (induction j)
  case 0
  then show ?case by (simp add: kept_refl)
next
  case (Suc j)
  show ?case
  proof (cases "k = Suc j")
    case True
    then show ?thesis by (simp add: kept_refl)
  next
    case False
    with Suc.prems have "k \<le> j" by simp
    then have "kept (after_stage e html u k) (after_stage e html u j)" by (rule Suc.IH)
    then show ?thesis using kept_step by (rule kept_trans)
  qed
qed

text \<open>
  The theorem on the sample track page: the title written by the first stage is the title
  after the last one.
\<close>

theorem extraction_first_writer_wins_witness:
  "title (after_stage (sample_env track_page_net []) sample_track_page
            (str ''https://music.amazon.com/tracks/B079'') 1)
     = str ''Whatever It Takes - Imagine Dragons'' \<and>
   title (after_stage (sample_env track_page_net []) sample_track_page
            (str ''https://music.amazon.com/tracks/B079'') 5)
     = str ''Whatever It Takes - Imagine Dragons''"
proof -
  let ?a = "after_stage (sample_env track_page_net []) sample_track_page
              (str ''https://music.amazon.com/tracks/B079'')"
  have 1: "title (?a 1) = str ''Whatever It Takes - Imagine Dragons''"
    unfolding after_stage_unfold
    by (simp add: sample_track_page_def stage_meta_def metaRegex_def meta_tag_def
        initial_metadata_def re_eval)
  then have "title (?a 1) \<noteq> []" by (simp add: str_def)
  then have "title (?a 5) = title (?a 1)"
    using extraction_first_writer_wins
      [of 1 5 "sample_env track_page_net []" sample_track_page
          "str ''https://music.amazon.com/tracks/B079''"]
    by (simp add: kept_def)
  with 1 show ?thesis by simp
qed

section \<open>Splitting the title\<close>

lemma split_from_nonempty: "split_from sep cur s \<noteq> []"
  by (induction s arbitrary: cur) auto

lemma split_from_length:
  "sep \<noteq> [] \<Longrightarrow> includes_js s sep \<Longrightarrow> 2 \<le> length (split_from sep cur s)"
proof (induction s arbitrary: cur)
  case Nil
  then show ?case by simp
next
  case (Cons x xs)
  show ?case
  proof (cases "prefix sep (x # xs)")
    case True
    have "1 \<le> length (split_from sep [] (drop (length sep - 1) xs))"
      using split_from_nonempty[of sep "[]" "drop (length sep - 1) xs"]
      by (cases "split_from sep [] (drop (length sep - 1) xs)") simp_all
    with True Cons.prems(1) show ?thesis by simp
  next
    case False
    with Cons show ?thesis by simp
  qed
qed

text \<open>
  The loop over the separators is decided by the first separator of the list that the
  title includes.
\<close>

lemma artist_from_title_find:
  "\<forall>sep\<in>set seps. sep \<noteq> [] \<Longrightarrow>
   artist_from_title seps m =
     (case find (includes_js (title m)) seps of
        None \<Rightarrow> m
      | Some sep \<Rightarrow>
          (let candidate = trim (last (split (title m) sep)) in
           if candidate \<noteq> [] \<and> candidate \<noteq> str ''Amazon Music''
           then m\<lparr>artist := JStr candidate\<rparr> else m))"
proof (induction seps)
  case Nil
  then show ?case by simp
next
  case (Cons sep seps)
  show ?case
  proof (cases "includes_js (title m) sep")
    case True
    then have "2 \<le> length (split (title m) sep)"
      using Cons.prems split_from_length[of sep "title m" "[]"] by (simp add: split_def)
    with True show ?thesis by (simp add: Let_def)
  next
    case False
    with Cons show ?thesis by simp
  qed
qed

lemma separators_nonempty: "\<forall>sep\<in>set separators. sep \<noteq> []"
  by (simp add: separators_def en_dash_sep_def str_def)

lemma stage_description_artist: "artist (stage_description m) = artist m"
  using arg_cong[OF conjunct1[OF stage_description_shape[of m]], of artist] by simp

lemma sample_title_split:
  "find (includes_js (str ''Whatever It Takes - Imagine Dragons''))
       [en_dash_sep, str '' - '', str '' | ''] = Some (str '' - '') \<and>
   trim (last (split (str ''Whatever It Takes - Imagine Dragons'') (str '' - '')))
     = str ''Imagine Dragons''"
  by (simp add: en_dash_sep_def split_def str_def trim_def isWhiteSpace_def)

text \<open>
  C3. Let the extraction reach the splitting of the title with an empty artist and a title
  that is not empty. Then the artist of the result is decided by the first of the three
  separators, in the order en-dash, hyphen, pipe, that the title includes: the candidate is
  the last piece of the title split at that separator (trimmed), and it becomes the artist
  unless it is empty or equals \<open>Amazon Music\<close>; no separator after that one is tried, so
  that the artist stays empty when the candidate is rejected, and when the title includes
  no separator. In particular the title \<open>Whatever It Takes - Imagine Dragons\<close> gives the
  artist \<open>Imagine Dragons\<close>.
\<close>

theorem title_splitting_priority:
  assumes "m = after_stage e html u 3" and "artist m = JStr []" and "title m \<noteq> []"
  shows "artist (parseOpenGraph e html u) =
           (case find (includes_js (title m)) [en_dash_sep, str '' - '', str '' | ''] of
              None \<Rightarrow> JStr []
            | Some sep \<Rightarrow>
                (let candidate = trim (last (split (title m) sep)) in
                 if candidate \<noteq> [] \<and> candidate \<noteq> str ''Amazon Music''
                 then JStr candidate else JStr []))
         \<and> (\<forall>sep. find (includes_js (title m)) [en_dash_sep, str '' - '', str '' | '']
                     = Some sep
                  \<and> trim (last (split (title m) sep)) = str ''Amazon Music''
               \<longrightarrow> artist (parseOpenGraph e html u) = JStr [])
         \<and> (title m = str ''Whatever It Takes - Imagine Dragons''
               \<longrightarrow> artist (parseOpenGraph e html u) = JStr (str ''Imagine Dragons''))"
proof -
  have "artist (parseOpenGraph e html u) = artist (stage_split_title m)"
    by (simp add: parseOpenGraph_stages after_stage_unfold(4,5) stage_description_artist
        assms(1))
  also have "stage_split_title m = artist_from_title separators m"
    using assms(2,3) by (simp add: stage_split_title_def)
  also have "artist (artist_from_title separators m) =
           (case find (includes_js (title m)) [en_dash_sep, str '' - '', str '' | ''] of
              None \<Rightarrow> JStr []
            | Some sep \<Rightarrow>
                (let candidate = trim (last (split (title m) sep)) in
                 if candidate \<noteq> [] \<and> candidate \<noteq> str ''Amazon Music''
                 then JStr candidate else JStr []))"
    unfolding artist_from_title_find[OF separators_nonempty]
    using assms(2) by (simp add: separators_def Let_def split: option.splits)
  finally have main: "artist (parseOpenGraph e html u) =
           (case find (includes_js (title m)) [en_dash_sep, str '' - '', str '' | ''] of
              None \<Rightarrow> JStr []
            | Some sep \<Rightarrow>
                (let candidate = trim (last (split (title m) sep)) in
                 if candidate \<noteq> [] \<and> candidate \<noteq> str ''Amazon Music''
                 then JStr candidate else JStr []))" .
  have rejected: "\<forall>sep. find (includes_js (title m)) [en_dash_sep, str '' - '', str '' | '']
                     = Some sep
                  \<and> trim (last (split (title m) sep)) = str ''Amazon Music''
               \<longrightarrow> artist (parseOpenGraph e html u) = JStr []"
    unfolding main by (simp add: Let_def)
  have example: "title m = str ''Whatever It Takes - Imagine Dragons''
               \<longrightarrow> artist (parseOpenGraph e html u) = JStr (str ''Imagine Dragons'')"
  proof
    assume t: "title m = str ''Whatever It Takes - Imagine Dragons''"
    show "artist (parseOpenGraph e html u) = JStr (str ''Imagine Dragons'')"
      unfolding main t using sample_title_split by (simp add: Let_def) (simp add: str_def)
  qed
  from main rejected example show ?thesis by blast
qed

text \<open>
  The theorem on the sample track page, whose only tag is the title
  \<open>Whatever It Takes - Imagine Dragons\<close>.
\<close>

theorem title_splitting_priority_witness:
  "artist (parseOpenGraph (sample_env track_page_net []) sample_track_page
             (str ''https://music.amazon.com/tracks/B079''))
     = JStr (str ''Imagine Dragons'')"
proof -
  let ?e = "sample_env track_page_net []"
  let ?u = "str ''https://music.amazon.com/tracks/B079''"
  let ?m = "after_stage ?e sample_track_page ?u 3"
  have m: "?m = (initial_metadata ?u)\<lparr>title := str ''Whatever It Takes - Imagine Dragons''\<rparr>"
    unfolding after_stage_unfold
    by (simp add: sample_track_page_def stage_meta_def stage_title_def stage_json_ld_def
        metaRegex_def jsonLdRegex_def meta_tag_def initial_metadata_def re_eval)
  have 1: "artist ?m = JStr []" unfolding m by (simp add: initial_metadata_def)
  have 2: "title ?m \<noteq> []" unfolding m by (simp add: str_def)
  have 3: "title ?m = str ''Whatever It Takes - Imagine Dragons''" unfolding m by simp
  show ?thesis
    using title_splitting_priority [OF refl 1 2] 3 by blast
qed

section \<open>The matches of the URL pattern\<close>

text \<open>
  The matcher is read as a relation: \<open>(s', c')\<close> is among the results of \<open>r\<close> on \<open>(s, c)\<close>
  when \<open>r\<close> can consume a prefix of \<open>s\<close> and leave \<open>s'\<close>, with the captures \<open>c'\<close>.
\<close>

lemma in_rmatch_Eps: "st' \<in> set (rmatch Eps st) \<longleftrightarrow> st' = st"
  by simp

lemma in_rmatch_Chr:
  "(s', c') \<in> set (rmatch (Chr p) (s, c)) \<longleftrightarrow> c' = c \<and> (\<exists>x. s = x # s' \<and> p x)"
  by (cases s) auto

lemma in_rmatch_Seq:
  "(s', c') \<in> set (rmatch (Seq a b) (s, c)) \<longleftrightarrow>
     (\<exists>s1 c1. (s1, c1) \<in> set (rmatch a (s, c)) \<and> (s', c') \<in> set (rmatch b (s1, c1)))"
  by auto

lemma in_rmatch_Alt:
  "st' \<in> set (rmatch (Alt a b) st) \<longleftrightarrow> st' \<in> set (rmatch a st) \<or> st' \<in> set (rmatch b st)"
  by simp

lemma in_rmatch_Opt:
  "st' \<in> set (rmatch (Opt a) st) \<longleftrightarrow> st' \<in> set (rmatch a st) \<or> st' = st"
  by auto

lemma in_rmatch_Eos:
  "(s', c') \<in> set (rmatch Eos (s, c)) \<longleftrightarrow> s = [] \<and> s' = [] \<and> c' = c"
  by auto

lemma in_rmatch_Grp:
  "(s', c') \<in> set (rmatch (Grp n r) (s, c)) \<longleftrightarrow>
     (\<exists>c1. (s', c1) \<in> set (rmatch r (s, c)) \<and> c' = (n, take (length s - length s') s) # c1)"
  by auto

lemma drops_iff:
  "s' \<in> (\<lambda>k. drop k s) ` {lo ..< Suc (length (takeWhile p s))} \<longleftrightarrow>
     (\<exists>a. lo \<le> length a \<and> s = a @ s' \<and> (\<forall>x\<in>set a. p x))"
proof
  assume "s' \<in> (\<lambda>k. drop k s) ` {lo ..< Suc (length (takeWhile p s))}"
  then obtain k where k: "lo \<le> k" "k \<le> length (takeWhile p s)" "s' = drop k s" by auto
  have "take k s = take k (takeWhile p s @ dropWhile p s)" by simp
  also have "\<dots> = take k (takeWhile p s)" using k(2) by (simp del: takeWhile_dropWhile_id)
  finally have "set (take k s) \<subseteq> set (takeWhile p s)" by (simp add: set_take_subset)
  then have "\<forall>x\<in>set (take k s). p x" by (auto dest: set_takeWhileD)
  moreover have "length (take k s) = k"
    using k(2) length_takeWhile_le[of p s] by simp
  moreover have "s = take k s @ s'" using k(3) by simp
  ultimately show "\<exists>a. lo \<le> length a \<and> s = a @ s' \<and> (\<forall>x\<in>set a. p x)"
    using k(1) by metis
next
  assume "\<exists>a. lo \<le> length a \<and> s = a @ s' \<and> (\<forall>x\<in>set a. p x)"
  then obtain a where a: "lo \<le> length a" "s = a @ s'" "\<forall>x\<in>set a. p x" by blast
  have "takeWhile p s = a @ takeWhile p s'" using a(2,3) by (simp add: takeWhile_append2)
  then have "length a \<le> length (takeWhile p s)" by simp
  moreover have "s' = drop (length a) s" using a(2) by simp
  ultimately show "s' \<in> (\<lambda>k. drop k s) ` {lo ..< Suc (length (takeWhile p s))}"
    using a(1) by auto
qed

lemma in_rmatch_Plus:
  "(s', c') \<in> set (rmatch (Plus p) (s, c)) \<longleftrightarrow>
     c' = c \<and> (\<exists>a. a \<noteq> [] \<and> s = a @ s' \<and> (\<forall>x\<in>set a. p x))"
proof -
  have "(s', c') \<in> set (rmatch (Plus p) (s, c)) \<longleftrightarrow>
      c' = c \<and> s' \<in> (\<lambda>k. drop k s) ` {1 ..< Suc (length (takeWhile p s))}"
    by (auto simp del: upt_Suc)
  also have "\<dots> \<longleftrightarrow> c' = c \<and> (\<exists>a. a \<noteq> [] \<and> s = a @ s' \<and> (\<forall>x\<in>set a. p x))"
    unfolding drops_iff by (metis One_nat_def Suc_leI length_greater_0_conv less_eq_Suc_le not_less_eq_eq list.size(3) le_zero_eq)
  finally show ?thesis .
qed

lemma in_rmatch_Star:
  "(s', c') \<in> set (rmatch (Star p) (s, c)) \<longleftrightarrow>
     c' = c \<and> (\<exists>a. s = a @ s' \<and> (\<forall>x\<in>set a. p x))"
proof -
  have "(s', c') \<in> set (rmatch (Star p) (s, c)) \<longleftrightarrow>
      c' = c \<and> s' \<in> (\<lambda>k. drop k s) ` {0 ..< Suc (length (takeWhile p s))}"
    by (auto simp del: upt_Suc)
  also have "\<dots> \<longleftrightarrow> c' = c \<and> (\<exists>a. s = a @ s' \<and> (\<forall>x\<in>set a. p x))"
    unfolding drops_iff by simp
  finally show ?thesis .
qed

lemma in_seqs_Nil: "st' \<in> set (rmatch (seqs []) st) \<longleftrightarrow> st' = st"
  by (simp add: seqs_def)

lemma in_seqs_Cons:
  "(s', c') \<in> set (rmatch (seqs (r # rs)) (s, c)) \<longleftrightarrow>
     (\<exists>s1 c1. (s1, c1) \<in> set (rmatch r (s, c)) \<and> (s', c') \<in> set (rmatch (seqs rs) (s1, c1)))"
  by (auto simp: seqs_def)

lemma ci_eq_Nil [simp]: "ci_eq a [] \<longleftrightarrow> a = []" "ci_eq [] b \<longleftrightarrow> b = []"
  by (auto simp: ci_eq_def)

lemma ci_eq_Cons:
  "ci_eq a (y # w) \<longleftrightarrow> (\<exists>x a'. a = x # a' \<and> canonicalize x = canonicalize y \<and> ci_eq a' w)"
  by (cases a) (auto simp: ci_eq_def)

lemma in_rmatch_lit_i:
  "(s', c') \<in> set (rmatch (lit_i w) (s, c)) \<longleftrightarrow> c' = c \<and> (\<exists>a. s = a @ s' \<and> ci_eq a w)"
proof (induction w arbitrary: s c)
  case Nil
  then show ?case by (auto simp: lit_i_def seqs_def)
next
  case (Cons y w)
  have "(s', c') \<in> set (rmatch (lit_i (y # w)) (s, c)) \<longleftrightarrow>
      (\<exists>s1 c1. (s1, c1) \<in> set (rmatch (Chr (\<lambda>x. canonicalize x = canonicalize y)) (s, c))
          \<and> (s', c') \<in> set (rmatch (lit_i w) (s1, c1)))"
    unfolding lit_i_def by (simp add: in_seqs_Cons)
  also have "\<dots> \<longleftrightarrow> c' = c \<and> (\<exists>x s1. s = x # s1 \<and> canonicalize x = canonicalize y
        \<and> (\<exists>a. s1 = a @ s' \<and> ci_eq a w))"
    unfolding in_rmatch_Chr Cons.IH by auto
  also have "\<dots> \<longleftrightarrow> c' = c \<and> (\<exists>a. s = a @ s' \<and> ci_eq a (y # w))"
    unfolding ci_eq_Cons by (auto simp: Cons_eq_append_conv) 
  finally show ?case .
qed


lemma ci_eq_length: "ci_eq a b \<Longrightarrow> length a = length b"
  unfolding ci_eq_def by (metis length_map)

lemma ci_eq_append:
  "ci_eq x (w @ v) \<longleftrightarrow> (\<exists>a b. x = a @ b \<and> ci_eq a w \<and> ci_eq b v)"
proof
  assume h: "ci_eq x (w @ v)"
  then have "map canonicalize x = map canonicalize w @ map canonicalize v"
    by (simp add: ci_eq_def)
  then obtain a b where "x = a @ b" "map canonicalize a = map canonicalize w"
    "map canonicalize b = map canonicalize v"
    by (auto simp: map_eq_append_conv)
  then show "\<exists>a b. x = a @ b \<and> ci_eq a w \<and> ci_eq b v" by (auto simp: ci_eq_def)
next
  assume "\<exists>a b. x = a @ b \<and> ci_eq a w \<and> ci_eq b v"
  then show "ci_eq x (w @ v)" by (auto simp: ci_eq_def)
qed

lemma ci_eq_slash [simp]: "ci_eq a (str ''/'') \<longleftrightarrow> a = [47]"
  by (auto simp: ci_eq_Cons str_def canonicalize_def split: if_splits)

lemma ci_eq_s: "ci_eq a (str ''s'') \<longleftrightarrow> a = [115] \<or> a = [83]"
  by (auto simp: ci_eq_Cons str_def canonicalize_def split: if_splits)

lemma str_append: "str (a @ b) = str a @ str b"
  by (simp add: str_def)

lemma origin_forms:
  "ci_eq origin (str ''http://music.amazon.'') \<or> ci_eq origin (str ''https://music.amazon.'')
   \<longleftrightarrow> (\<exists>a1 a2 a3. origin = a1 @ a2 @ a3 \<and> ci_eq a1 (str ''http'')
          \<and> (ci_eq a2 (str ''s'') \<or> a2 = []) \<and> ci_eq a3 (str ''://music.amazon.''))"
proof -
  have 1: "str ''http://music.amazon.'' = str ''http'' @ str ''://music.amazon.''"
    by (simp add: str_def)
  have 2: "str ''https://music.amazon.'' = str ''http'' @ str ''s'' @ str ''://music.amazon.''"
    by (simp add: str_def)
  have a: "ci_eq origin (str ''http://music.amazon.'') \<longleftrightarrow>
      (\<exists>a1 a3. origin = a1 @ [] @ a3 \<and> ci_eq a1 (str ''http'')
          \<and> ci_eq a3 (str ''://music.amazon.''))"
    unfolding 1 ci_eq_append by simp
  have b: "ci_eq origin (str ''https://music.amazon.'') \<longleftrightarrow>
      (\<exists>a1 a2 a3. origin = a1 @ a2 @ a3 \<and> ci_eq a1 (str ''http'')
          \<and> ci_eq a2 (str ''s'') \<and> ci_eq a3 (str ''://music.amazon.''))"
    unfolding 2 ci_eq_append by auto
  show ?thesis unfolding a b by blast
qed

lemma in_origin:
  "(s', c') \<in> set (rmatch (seqs (lit_i (str ''http'') # Opt (lit_i (str ''s''))
        # lit_i (str ''://music.amazon.'') # rs)) (s, c)) \<longleftrightarrow>
   (\<exists>origin s1. s = origin @ s1 \<and>
      (ci_eq origin (str ''http://music.amazon.'') \<or> ci_eq origin (str ''https://music.amazon.''))
      \<and> (s', c') \<in> set (rmatch (seqs rs) (s1, c)))"
  (is "?L \<longleftrightarrow> ?R")
proof
  assume ?L
  then obtain s1 c1 s2 c2 s3 c3 where
    m1: "(s1, c1) \<in> set (rmatch (lit_i (str ''http'')) (s, c))" and
    m2: "(s2, c2) \<in> set (rmatch (Opt (lit_i (str ''s''))) (s1, c1))" and
    m3: "(s3, c3) \<in> set (rmatch (lit_i (str ''://music.amazon.'')) (s2, c2))" and
    m4: "(s', c') \<in> set (rmatch (seqs rs) (s3, c3))"
    unfolding in_seqs_Cons by blast
  from m1 obtain a1 where a1: "c1 = c" "s = a1 @ s1" "ci_eq a1 (str ''http'')"
    unfolding in_rmatch_lit_i by blast
  from m2 have "(c2 = c1 \<and> (\<exists>a. s1 = a @ s2 \<and> ci_eq a (str ''s''))) \<or> (s2 = s1 \<and> c2 = c1)"
    unfolding in_rmatch_Opt in_rmatch_lit_i by simp
  then obtain a2 where a2: "c2 = c1" "s1 = a2 @ s2" "ci_eq a2 (str ''s'') \<or> a2 = []"
    by (metis append_Nil)
  from m3 obtain a3 where a3: "c3 = c2" "s2 = a3 @ s3" "ci_eq a3 (str ''://music.amazon.'')"
    unfolding in_rmatch_lit_i by blast
  have "ci_eq (a1 @ a2 @ a3) (str ''http://music.amazon.'')
      \<or> ci_eq (a1 @ a2 @ a3) (str ''https://music.amazon.'')"
    unfolding origin_forms using a1(3) a2(3) a3(3) by blast
  moreover have "s = (a1 @ a2 @ a3) @ s3" using a1(2) a2(2) a3(2) by simp
  moreover have "(s', c') \<in> set (rmatch (seqs rs) (s3, c))" using m4 a1(1) a2(1) a3(1) by simp
  ultimately show ?R by blast
next
  assume ?R
  then obtain origin s1 where o: "s = origin @ s1"
    "ci_eq origin (str ''http://music.amazon.'') \<or> ci_eq origin (str ''https://music.amazon.'')"
    "(s', c') \<in> set (rmatch (seqs rs) (s1, c))" by blast
  from o(2) obtain a1 a2 a3 where a: "origin = a1 @ a2 @ a3" "ci_eq a1 (str ''http'')"
    "ci_eq a2 (str ''s'') \<or> a2 = []" "ci_eq a3 (str ''://music.amazon.'')"
    unfolding origin_forms by blast
  have 1: "(a2 @ a3 @ s1, c) \<in> set (rmatch (lit_i (str ''http'')) (s, c))"
    unfolding in_rmatch_lit_i using o(1) a(1,2) by auto
  have 2: "(a3 @ s1, c) \<in> set (rmatch (Opt (lit_i (str ''s''))) (a2 @ a3 @ s1, c))"
    unfolding in_rmatch_Opt in_rmatch_lit_i using a(3) by auto
  have 3: "(s1, c) \<in> set (rmatch (lit_i (str ''://music.amazon.'')) (a3 @ s1, c))"
    unfolding in_rmatch_lit_i using a(4) by auto
  show ?L
    unfolding in_seqs_Cons using 1 2 3 o(3) by blast
qed

lemma in_host:
  "(s', c') \<in> set (rmatch (seqs (Plus (none_of (str ''/'')) # lit_i (str ''/'') # rs)) (s, c))
   \<longleftrightarrow> (\<exists>host s1. s = host @ [47] @ s1 \<and> host \<noteq> [] \<and> 47 \<notin> set host
          \<and> (s', c') \<in> set (rmatch (seqs rs) (s1, c)))"
proof -
  have n: "(\<forall>x\<in>set a. none_of (str ''/'') x) \<longleftrightarrow> 47 \<notin> set a" for a
    by (auto simp: none_of_def str_def)
  show ?thesis
    unfolding in_seqs_Cons in_rmatch_Plus in_rmatch_lit_i n ci_eq_slash
    by (simp add: ex_simps[symmetric] del: ex_simps) (metis append_Cons append_Nil)
qed


lemma in_kind:
  "(s', c') \<in> set (rmatch (seqs (Grp 1 (alts [lit_i (str ''albums''), lit_i (str ''tracks''),
        lit_i (str ''artists''), lit_i (str ''playlists''), lit_i (str ''user-playlists'')])
        # lit_i (str ''/'') # rs)) (s, c))
   \<longleftrightarrow> (\<exists>kind s1. s = kind @ [47] @ s1 \<and> (\<exists>k\<in>set kind_segments. ci_eq kind k)
          \<and> (s', c') \<in> set (rmatch (seqs rs) (s1, (1, kind) # c)))"
  (is "?L \<longleftrightarrow> ?R")
proof -
  let ?alts = "alts [lit_i (str ''albums''), lit_i (str ''tracks''),
        lit_i (str ''artists''), lit_i (str ''playlists''), lit_i (str ''user-playlists'')]"
  have alt: "(s1, c1) \<in> set (rmatch ?alts (s0, c0)) \<longleftrightarrow>
      c1 = c0 \<and> (\<exists>a. s0 = a @ s1 \<and> (\<exists>k\<in>set kind_segments. ci_eq a k))" for s1 c1 s0 c0
    by (auto simp: alts_def in_rmatch_lit_i kind_segments_def)
  have grp: "(s1, c1) \<in> set (rmatch (Grp 1 ?alts) (s0, c0)) \<longleftrightarrow>
      (\<exists>a. s0 = a @ s1 \<and> (\<exists>k\<in>set kind_segments. ci_eq a k) \<and> c1 = (1, a) # c0)"
    for s1 c1 s0 c0
    unfolding in_rmatch_Grp alt by auto
  show ?thesis
  proof
    assume ?L
    then obtain s1 c1 s2 c2 where
      m1: "(s1, c1) \<in> set (rmatch (Grp 1 ?alts) (s, c))" and
      m2: "(s2, c2) \<in> set (rmatch (lit_i (str ''/'')) (s1, c1))" and
      m3: "(s', c') \<in> set (rmatch (seqs rs) (s2, c2))"
      unfolding in_seqs_Cons by blast
    from m1 obtain a where a: "s = a @ s1" "\<exists>k\<in>set kind_segments. ci_eq a k" "c1 = (1, a) # c"
      unfolding grp by blast
    from m2 have b: "c2 = c1" "s1 = [47] @ s2"
      unfolding in_rmatch_lit_i ci_eq_slash by auto
    show ?R using a b m3 by auto
  next
    assume ?R
    then obtain kind s1 where k: "s = kind @ [47] @ s1" "\<exists>k\<in>set kind_segments. ci_eq kind k"
      "(s', c') \<in> set (rmatch (seqs rs) (s1, (1, kind) # c))" by blast
    have 1: "([47] @ s1, (1, kind) # c) \<in> set (rmatch (Grp 1 ?alts) (s, c))"
      unfolding grp using k(1,2) by auto
    have 2: "(s1, (1, kind) # c) \<in> set (rmatch (lit_i (str ''/'')) ([47] @ s1, (1, kind) # c))"
      unfolding in_rmatch_lit_i ci_eq_slash by auto
    show ?L unfolding in_seqs_Cons using 1 2 k(3) by blast
  qed
qed

lemma in_ident:
  "(s', c') \<in> set (rmatch (seqs (Grp 2 (Plus isAlnum) # rs)) (s, c))
   \<longleftrightarrow> (\<exists>ident s1. s = ident @ s1 \<and> ident \<noteq> [] \<and> (\<forall>x\<in>set ident. isAlnum x)
          \<and> (s', c') \<in> set (rmatch (seqs rs) (s1, (2, ident) # c)))"
proof -
  have grp: "(s1, c1) \<in> set (rmatch (Grp 2 (Plus isAlnum)) (s0, c0)) \<longleftrightarrow>
      (\<exists>a. s0 = a @ s1 \<and> a \<noteq> [] \<and> (\<forall>x\<in>set a. isAlnum x) \<and> c1 = (2, a) # c0)"
    for s1 c1 s0 c0
    unfolding in_rmatch_Grp in_rmatch_Plus by auto
  show ?thesis unfolding in_seqs_Cons grp by blast
qed

lemma in_plain_rest:
  "(s', c') \<in> set (rmatch (seqs [Opt (Seq (Chr (one_of (str ''/?'')))
        (Star (\<lambda>x. \<not> isLineTerminator x))), Eos]) (r, c))
   \<longleftrightarrow> s' = [] \<and> c' = c \<and> plain_rest r"
proof -
  have o: "one_of (str ''/?'') x \<longleftrightarrow> x = 47 \<or> x = 63" for x
    by (auto simp: one_of_def str_def)
  have opt: "(s1, c1) \<in> set (rmatch (Opt (Seq (Chr (one_of (str ''/?'')))
        (Star (\<lambda>x. \<not> isLineTerminator x)))) (r, c)) \<longleftrightarrow>
      c1 = c \<and> (s1 = r \<or> (\<exists>x a. r = x # a @ s1 \<and> (x = 47 \<or> x = 63)
          \<and> (\<forall>y\<in>set a. \<not> isLineTerminator y)))" for s1 c1
    unfolding in_rmatch_Opt in_rmatch_Seq in_rmatch_Chr in_rmatch_Star o by auto
  show ?thesis
    unfolding in_seqs_Cons in_seqs_Nil opt in_rmatch_Eos
    by (cases r) (auto simp: plain_rest_def)
qed

lemma slug_split:
  "(\<exists>u r'. t = u @ r' \<and> u \<noteq> [] \<and> (\<forall>x\<in>set u. none_of (str ''/?#'') x) \<and> plain_rest r')
   \<longleftrightarrow> takeWhile (none_of (str ''/?#'')) t \<noteq> [] \<and> plain_rest (dropWhile (none_of (str ''/?#'')) t)"
  (is "?L \<longleftrightarrow> ?R")
proof
  assume ?R
  then show ?L
    by (metis takeWhile_dropWhile_id set_takeWhileD)
next
  assume ?L
  then obtain u r' where u: "t = u @ r'" "u \<noteq> []" "\<forall>x\<in>set u. none_of (str ''/?#'') x"
    "plain_rest r'" by blast
  have "takeWhile (none_of (str ''/?#'')) t = u \<and> dropWhile (none_of (str ''/?#'')) t = r'"
  proof (cases r')
    case Nil
    then show ?thesis using u(1,3) by simp
  next
    case (Cons x xs)
    then have "x = 47 \<or> x = 63" using u(4) by (simp add: plain_rest_def)
    then have "\<not> none_of (str ''/?#'') x" by (auto simp: none_of_def str_def)
    then show ?thesis
      using u(1,3) Cons by (simp add: takeWhile_append2 dropWhile_append2)
  qed
  then show ?R using u(2,4) by simp
qed

lemma in_tail:
  "(s', c') \<in> set (rmatch (seqs [Opt (Seq (lit_i (str ''/'')) (Plus (none_of (str ''/?#'')))),
        Opt (Seq (Chr (one_of (str ''/?''))) (Star (\<lambda>x. \<not> isLineTerminator x))), Eos]) (r, c))
   \<longleftrightarrow> s' = [] \<and> c' = c \<and> rest_ok r"
proof -
  have opt: "(s1, c1) \<in> set (rmatch (Opt (Seq (lit_i (str ''/'')) (Plus (none_of (str ''/?#''))))) (r, c))
      \<longleftrightarrow> c1 = c \<and> (s1 = r \<or> (\<exists>u. r = 47 # u @ s1 \<and> u \<noteq> []
            \<and> (\<forall>x\<in>set u. none_of (str ''/?#'') x)))" for s1 c1
    unfolding in_rmatch_Opt in_rmatch_Seq in_rmatch_lit_i in_rmatch_Plus ci_eq_slash by auto
  have "(s', c') \<in> set (rmatch (seqs [Opt (Seq (lit_i (str ''/'')) (Plus (none_of (str ''/?#'')))),
        Opt (Seq (Chr (one_of (str ''/?''))) (Star (\<lambda>x. \<not> isLineTerminator x))), Eos]) (r, c))
     \<longleftrightarrow> s' = [] \<and> c' = c \<and> (plain_rest r \<or> (\<exists>u r'. r = 47 # u @ r' \<and> u \<noteq> []
            \<and> (\<forall>x\<in>set u. none_of (str ''/?#'') x) \<and> plain_rest r'))"
    unfolding in_seqs_Cons[of _ _ "Opt (Seq (lit_i (str ''/'')) (Plus (none_of (str ''/?#''))))"]
      opt in_plain_rest by auto
  also have "\<dots> \<longleftrightarrow> s' = [] \<and> c' = c \<and> rest_ok r"
  proof (cases r)
    case Nil
    then show ?thesis by (simp add: rest_ok_def)
  next
    case (Cons x t)
    have "(\<exists>u r'. x # t = 47 # u @ r' \<and> u \<noteq> [] \<and> (\<forall>x\<in>set u. none_of (str ''/?#'') x)
            \<and> plain_rest r')
        \<longleftrightarrow> x = 47 \<and> (\<exists>u r'. t = u @ r' \<and> u \<noteq> [] \<and> (\<forall>x\<in>set u. none_of (str ''/?#'') x)
            \<and> plain_rest r')" by auto
    then show ?thesis unfolding Cons slug_split by (simp add: rest_ok_def)
  qed
  finally show ?thesis .
qed

lemma in_URL_PATTERN:
  "(s', c') \<in> set (rmatch URL_PATTERN (t, [])) \<longleftrightarrow>
     s' = [] \<and> (\<exists>origin host kind ident rest.
        t = url_of_parts origin host kind ident rest \<and> url_parts_ok origin host kind ident rest
        \<and> c' = [(2, ident), (1, kind)])"
  (is "?L \<longleftrightarrow> ?R")
proof -
  have "?L \<longleftrightarrow> (\<exists>origin s1. t = origin @ s1 \<and>
      (ci_eq origin (str ''http://music.amazon.'') \<or> ci_eq origin (str ''https://music.amazon.'')) \<and>
      (\<exists>host s2. s1 = host @ [47] @ s2 \<and> host \<noteq> [] \<and> 47 \<notin> set host \<and>
      (\<exists>kind s3. s2 = kind @ [47] @ s3 \<and> (\<exists>k\<in>set kind_segments. ci_eq kind k) \<and>
      (\<exists>ident s4. s3 = ident @ s4 \<and> ident \<noteq> [] \<and> (\<forall>x\<in>set ident. isAlnum x) \<and>
         s' = [] \<and> c' = [(2, ident), (1, kind)] \<and> rest_ok s4))))"
    unfolding URL_PATTERN_def in_origin in_host in_kind in_ident in_tail ..
  also have "\<dots> \<longleftrightarrow> ?R"
  proof
    assume "?R"
    then obtain origin host kind ident rest where
      "t = origin @ host @ [47] @ kind @ [47] @ ident @ rest"
      "url_parts_ok origin host kind ident rest" "c' = [(2, ident), (1, kind)]" "s' = []"
      unfolding url_of_parts_def by (auto simp: str_def)
    then show "\<exists>origin s1. t = origin @ s1 \<and>
      (ci_eq origin (str ''http://music.amazon.'') \<or> ci_eq origin (str ''https://music.amazon.'')) \<and>
      (\<exists>host s2. s1 = host @ [47] @ s2 \<and> host \<noteq> [] \<and> 47 \<notin> set host \<and>
      (\<exists>kind s3. s2 = kind @ [47] @ s3 \<and> (\<exists>k\<in>set kind_segments. ci_eq kind k) \<and>
      (\<exists>ident s4. s3 = ident @ s4 \<and> ident \<noteq> [] \<and> (\<forall>x\<in>set ident. isAlnum x) \<and>
         s' = [] \<and> c' = [(2, ident), (1, kind)] \<and> rest_ok s4)))"
      unfolding url_parts_ok_def by blast
  next
    assume "\<exists>origin s1. t = origin @ s1 \<and>
      (ci_eq origin (str ''http://music.amazon.'') \<or> ci_eq origin (str ''https://music.amazon.'')) \<and>
      (\<exists>host s2. s1 = host @ [47] @ s2 \<and> host \<noteq> [] \<and> 47 \<notin> set host \<and>
      (\<exists>kind s3. s2 = kind @ [47] @ s3 \<and> (\<exists>k\<in>set kind_segments. ci_eq kind k) \<and>
      (\<exists>ident s4. s3 = ident @ s4 \<and> ident \<noteq> [] \<and> (\<forall>x\<in>set ident. isAlnum x) \<and>
         s' = [] \<and> c' = [(2, ident), (1, kind)] \<and> rest_ok s4)))"
    then obtain origin host kind ident rest where
      p: "t = origin @ host @ [47] @ kind @ [47] @ ident @ rest"
      "ci_eq origin (str ''http://music.amazon.'') \<or> ci_eq origin (str ''https://music.amazon.'')"
      "host \<noteq> []" "47 \<notin> set host" "\<exists>k\<in>set kind_segments. ci_eq kind k"
      "ident \<noteq> []" "\<forall>x\<in>set ident. isAlnum x" "s' = []" "c' = [(2, ident), (1, kind)]"
      "rest_ok rest"
      by blast
    have "t = url_of_parts origin host kind ident rest"
      using p(1) by (simp add: url_of_parts_def str_def)
    moreover have "url_parts_ok origin host kind ident rest"
      using p(2-7,10) unfolding url_parts_ok_def by blast
    ultimately show ?R using p(8,9) by blast
  qed
  finally show ?thesis .
qed

text \<open>The parts of a URL are determined by the URL.\<close>

lemma ci_eq_nth:
  assumes "ci_eq a w" "i < length w"
  shows "canonicalize (a ! i) = canonicalize (w ! i)"
proof -
  have l: "length a = length w" using assms(1) by (rule ci_eq_length)
  have "map canonicalize a ! i = map canonicalize w ! i"
    using assms(1) by (simp add: ci_eq_def)
  then show ?thesis using l assms(2) by simp
qed

lemma canonicalize_colon: "canonicalize x = 58 \<longleftrightarrow> x = 58"
  by (auto simp: canonicalize_def)

lemma origin_http:
  assumes "ci_eq a (str ''http://music.amazon.'')"
  shows "length a = 20 \<and> a ! 4 = 58"
proof -
  have l: "length (str ''http://music.amazon.'') = 20" by (simp add: str_def)
  have n: "str ''http://music.amazon.'' ! 4 = 58" by (simp add: str_def)
  have "canonicalize (a ! 4) = canonicalize 58"
    using ci_eq_nth[OF assms, of 4] l n by simp
  then have "canonicalize (a ! 4) = 58" by (simp add: canonicalize_def)
  then have "a ! 4 = 58" by (simp only: canonicalize_colon)
  then show ?thesis using ci_eq_length[OF assms] l by simp
qed

lemma origin_https:
  assumes "ci_eq a (str ''https://music.amazon.'')"
  shows "length a = 21 \<and> a ! 4 \<noteq> 58"
proof -
  have l: "length (str ''https://music.amazon.'') = 21" by (simp add: str_def)
  have n: "str ''https://music.amazon.'' ! 4 = 115" by (simp add: str_def)
  have "canonicalize (a ! 4) = canonicalize 115"
    using ci_eq_nth[OF assms, of 4] l n by simp
  then have "a ! 4 \<noteq> 58" by (auto simp: canonicalize_def)
  then show ?thesis using ci_eq_length[OF assms] l by simp
qed

lemma origin_unique:
  assumes "a @ x = b @ y"
    and "ci_eq a (str ''http://music.amazon.'') \<or> ci_eq a (str ''https://music.amazon.'')"
    and "ci_eq b (str ''http://music.amazon.'') \<or> ci_eq b (str ''https://music.amazon.'')"
  shows "a = b \<and> x = y"
proof -
  have n: "(a @ x) ! 4 = a ! 4" "(b @ y) ! 4 = b ! 4"
    using assms(2,3) origin_http origin_https by (auto simp: nth_append)
  then have "a ! 4 = b ! 4" using assms(1) by simp
  then have "length a = length b"
    using assms(2,3) origin_http origin_https by metis
  then show ?thesis using assms(1) by simp
qed

lemma run_unique:
  assumes "a @ x = b @ y" "\<forall>z\<in>set a. p z" "\<forall>z\<in>set b. p z"
    and "x = [] \<or> \<not> p (hd x)" "y = [] \<or> \<not> p (hd y)"
  shows "a = b \<and> x = y"
proof -
  have "takeWhile p (a @ x) = a"
    using assms(2,4) by (cases x) (simp_all add: takeWhile_append2)
  moreover have "takeWhile p (b @ y) = b"
    using assms(3,5) by (cases y) (simp_all add: takeWhile_append2)
  ultimately have "a = b" using assms(1) by simp
  then show ?thesis using assms(1) by simp
qed

lemma kind_no_slash:
  assumes "\<exists>k\<in>set kind_segments. ci_eq kind k"
  shows "47 \<notin> set kind \<and> kind \<noteq> []"
proof -
  obtain k where k: "k \<in> set kind_segments" "map canonicalize kind = map canonicalize k"
    using assms by (auto simp: ci_eq_def)
  have c: "canonicalize 47 = 47" by (simp add: canonicalize_def)
  have "47 \<notin> set (map canonicalize k) \<and> k \<noteq> []"
    using k(1) by (auto simp: kind_segments_def str_def canonicalize_def)
  then have "47 \<notin> set (map canonicalize kind) \<and> kind \<noteq> []" using k(2) by auto
  then show ?thesis using c by (metis image_eqI set_map)
qed

lemma rest_ok_head: "rest_ok r \<Longrightarrow> r = [] \<or> \<not> isAlnum (hd r)"
  by (cases r) (auto simp: rest_ok_def plain_rest_def isAlnum_def)

lemma url_parts_unique:
  assumes "url_of_parts origin host kind ident rest = url_of_parts origin' host' kind' ident' rest'"
    and "url_parts_ok origin host kind ident rest"
    and "url_parts_ok origin' host' kind' ident' rest'"
  shows "kind = kind' \<and> ident = ident'"
proof -
  have 0: "origin @ (host @ [47] @ kind @ [47] @ ident @ rest)
      = origin' @ (host' @ [47] @ kind' @ [47] @ ident' @ rest')"
    using assms(1) by (simp add: url_of_parts_def str_def)
  have 1: "host @ ([47] @ kind @ [47] @ ident @ rest) = host' @ ([47] @ kind' @ [47] @ ident' @ rest')"
    using origin_unique[OF 0] assms(2,3) by (simp add: url_parts_ok_def)
  have 2: "kind @ ([47] @ ident @ rest) = kind' @ ([47] @ ident' @ rest')"
    using run_unique[OF 1, of "\<lambda>z. z \<noteq> 47"] assms(2,3) by (auto simp: url_parts_ok_def)
  have k: "47 \<notin> set kind" "47 \<notin> set kind'"
    using kind_no_slash assms(2,3) by (auto simp: url_parts_ok_def)
  have 3: "kind = kind' \<and> ident @ rest = ident' @ rest'"
    using run_unique[OF 2, of "\<lambda>z. z \<noteq> 47"] k by auto
  then have 4: "ident @ rest = ident' @ rest'" by simp
  have "ident = ident'"
    using run_unique[OF 4, of isAlnum] assms(2,3) rest_ok_head[of rest] rest_ok_head[of rest']
    by (auto simp: url_parts_ok_def)
  with 3 show ?thesis by simp
qed

text \<open>The search for the leftmost match.\<close>

lemma re_exec_None:
  "re_exec r s = None \<longleftrightarrow> (\<forall>pre t. s = pre @ t \<longrightarrow> rmatch r (t, []) = [])"
proof (induction s)
  case Nil
  then show ?case by (auto simp: match_here_def split: list.splits)
next
  case (Cons x xs)
  have "(\<forall>pre t. x # xs = pre @ t \<longrightarrow> rmatch r (t, []) = []) \<longleftrightarrow>
      rmatch r (x # xs, []) = [] \<and> (\<forall>pre t. xs = pre @ t \<longrightarrow> rmatch r (t, []) = [])"
    by (auto simp: Cons_eq_append_conv)
  then show ?case using Cons.IH by (auto simp: match_here_def split: list.splits)
qed

lemma re_exec_Some:
  "re_exec r s = Some c \<Longrightarrow>
   \<exists>pre t s'. s = pre @ t \<and> rmatch r (t, []) \<noteq> [] \<and> hd (rmatch r (t, [])) = (s', c)"
proof (induction s)
  case Nil
  then have "rmatch r ([], []) \<noteq> [] \<and> snd (hd (rmatch r ([], []))) = c"
    by (auto simp: match_here_def split: list.splits)
  then show ?case by (metis append_Nil prod.collapse)
next
  case (Cons x xs)
  show ?case
  proof (cases "rmatch r (x # xs, [])")
    case Nil
    then have "re_exec r xs = Some c" using Cons.prems by (simp add: match_here_def)
    then obtain pre t s' where "xs = pre @ t" "rmatch r (t, []) \<noteq> []"
      "hd (rmatch r (t, [])) = (s', c)" using Cons.IH by blast
    then have "x # xs = (x # pre) @ t" by simp
    then show ?thesis using \<open>rmatch r (t, []) \<noteq> []\<close> \<open>hd (rmatch r (t, [])) = (s', c)\<close> by blast
  next
    case (Cons st sts)
    then have "snd st = c" using Cons.prems by (simp add: match_here_def)
    then have "rmatch r (x # xs, []) \<noteq> [] \<and> hd (rmatch r (x # xs, [])) = (fst st, c)"
      using Cons by auto
    then show ?thesis by (metis append_Nil)
  qed
qed

lemma re_exec_here:
  "rmatch r (s, []) \<noteq> [] \<Longrightarrow> re_exec r s = Some (snd (hd (rmatch r (s, []))))"
  by (cases s; cases "rmatch r (s, [])") (auto simp: match_here_def)

text \<open>What \<open>parseUrl\<close> returns, by the leftmost match of the pattern in the trimmed string.\<close>

lemma URL_PATTERN_matches_iff:
  "rmatch URL_PATTERN (t, []) \<noteq> [] \<longleftrightarrow>
     (\<exists>origin host kind ident rest.
        t = url_of_parts origin host kind ident rest \<and> url_parts_ok origin host kind ident rest)"
proof -
  have "rmatch URL_PATTERN (t, []) \<noteq> [] \<longleftrightarrow> (\<exists>s' c'. (s', c') \<in> set (rmatch URL_PATTERN (t, [])))"
    by (cases "rmatch URL_PATTERN (t, [])") auto
  then show ?thesis unfolding in_URL_PATTERN by blast
qed

lemma URL_PATTERN_first:
  assumes "rmatch URL_PATTERN (t, []) \<noteq> []" and "hd (rmatch URL_PATTERN (t, [])) = (s', c)"
  shows "\<exists>origin host kind ident rest.
        t = url_of_parts origin host kind ident rest \<and> url_parts_ok origin host kind ident rest
        \<and> c = [(2, ident), (1, kind)]"
proof -
  have "(s', c) \<in> set (rmatch URL_PATTERN (t, []))"
    using assms by (metis hd_in_set)
  then show ?thesis unfolding in_URL_PATTERN by blast
qed

lemma parseUrl_of_captures:
  assumes "re_exec URL_PATTERN (trim s) = Some [(2, ident), (1, kind)]"
    and "kind \<noteq> []" "ident \<noteq> []"
  shows "parseUrl s = Some \<lparr> parsed_type = kind, parsed_id = ident \<rparr>"
  using assms by (simp add: parseUrl_def group_def)

lemma captures_at_start:
  assumes ok: "url_parts_ok origin host kind ident rest"
  shows "re_exec URL_PATTERN (url_of_parts origin host kind ident rest)
           = Some [(2, ident), (1, kind)]"
proof -
  let ?u = "url_of_parts origin host kind ident rest"
  have ne: "rmatch URL_PATTERN (?u, []) \<noteq> []"
    unfolding URL_PATTERN_matches_iff using ok by blast
  obtain s' c where h: "hd (rmatch URL_PATTERN (?u, [])) = (s', c)"
    by (cases "hd (rmatch URL_PATTERN (?u, []))") blast
  obtain origin' host' kind' ident' rest' where
    p: "?u = url_of_parts origin' host' kind' ident' rest'"
    "url_parts_ok origin' host' kind' ident' rest'" "c = [(2, ident'), (1, kind')]"
    using URL_PATTERN_first[OF ne h] by blast
  have u: "kind = kind' \<and> ident = ident'"
    using url_parts_unique[OF p(1) ok p(2)] by simp
  show ?thesis using re_exec_here[OF ne] h p(3) u by simp
qed

lemma re_exec_skip:
  "(\<forall>p q. pre = p @ q \<and> q \<noteq> [] \<longrightarrow> rmatch r (q @ u, []) = [])
     \<Longrightarrow> re_exec r (pre @ u) = re_exec r u"
proof (induction pre)
  case Nil
  then show ?case by simp
next
  case (Cons x pre)
  have "rmatch r ((x # pre) @ u, []) = []" using Cons.prems by blast
  then have 1: "re_exec r ((x # pre) @ u) = re_exec r (pre @ u)"
    by (simp add: match_here_def)
  have "\<forall>p q. pre = p @ q \<and> q \<noteq> [] \<longrightarrow> rmatch r (q @ u, []) = []"
    using Cons.prems by (metis append_Cons)
  then show ?case using 1 Cons.IH by simp
qed

text \<open>The three readings of the form are nested.\<close>

lemma strict_is_ok:
  "strict_parts_ok origin host kind ident rest \<Longrightarrow> url_parts_ok origin host kind ident rest"
  unfolding strict_parts_ok_def url_parts_ok_def rest_ok_def
  by (auto simp: ci_eq_def)

lemma ok_is_loose:
  "url_parts_ok origin host kind ident rest \<Longrightarrow> loose_parts_ok origin host kind ident rest"
  unfolding loose_parts_ok_def url_parts_ok_def rest_ok_def plain_rest_def
  by (auto split: list.splits)

text \<open>
  C1, as amended. Let \<open>t\<close> be the string with its surrounding white space removed. If
  \<open>t\<close> ends with a URL of the strict form, and no URL of the loose form begins at an
  earlier place of \<open>t\<close> (as when \<open>t\<close> is itself the strict URL), then \<open>parseUrl\<close> returns
  the kind and the id of that URL; code units before the scheme do not prevent it. If no
  URL of the loose form ends \<open>t\<close>, whatever stands before it, then \<open>parseUrl\<close> returns
  \<open>null\<close>. Nothing is stated for the other strings.
\<close>

theorem parseUrl_strict_and_loose:
  "(strict_parts_ok origin host kind ident rest \<and>
    trim s = pre @ url_of_parts origin host kind ident rest \<and>
    (\<forall>pre' t' origin' host' kind' ident' rest'.
        trim s = pre' @ t' \<and> length pre' < length pre \<and>
        loose_parts_ok origin' host' kind' ident' rest'
        \<longrightarrow> t' \<noteq> url_of_parts origin' host' kind' ident' rest')
      \<longrightarrow> parseUrl s = Some \<lparr> parsed_type = kind, parsed_id = ident \<rparr>) \<and>
   ((\<forall>pre' origin' host' kind' ident' rest'.
        loose_parts_ok origin' host' kind' ident' rest'
        \<longrightarrow> trim s \<noteq> pre' @ url_of_parts origin' host' kind' ident' rest')
      \<longrightarrow> parseUrl s = None)"
proof -
  have a: "parseUrl s = Some \<lparr> parsed_type = kind, parsed_id = ident \<rparr>"
    if strict: "strict_parts_ok origin host kind ident rest"
      and t: "trim s = pre @ url_of_parts origin host kind ident rest"
      and first: "\<forall>pre' t' origin' host' kind' ident' rest'.
        trim s = pre' @ t' \<and> length pre' < length pre \<and>
        loose_parts_ok origin' host' kind' ident' rest'
        \<longrightarrow> t' \<noteq> url_of_parts origin' host' kind' ident' rest'"
  proof -
    let ?u = "url_of_parts origin host kind ident rest"
    have ok: "url_parts_ok origin host kind ident rest" using strict by (rule strict_is_ok)
    have "rmatch URL_PATTERN (q @ ?u, []) = []" if pq: "pre = p @ q" "q \<noteq> []" for p q
    proof (rule ccontr)
      assume "rmatch URL_PATTERN (q @ ?u, []) \<noteq> []"
      then obtain origin' host' kind' ident' rest' where
        m: "q @ ?u = url_of_parts origin' host' kind' ident' rest'"
        "url_parts_ok origin' host' kind' ident' rest'"
        unfolding URL_PATTERN_matches_iff by blast
      have "trim s = p @ (q @ ?u)" using t pq(1) by simp
      moreover have "length p < length pre" using pq by simp
      ultimately show False using first ok_is_loose[OF m(2)] m(1) by blast
    qed
    then have "re_exec URL_PATTERN (pre @ ?u) = re_exec URL_PATTERN ?u"
      by (intro re_exec_skip) blast
    then have "re_exec URL_PATTERN (trim s) = Some [(2, ident), (1, kind)]"
      using t captures_at_start[OF ok] by simp
    moreover have "kind \<noteq> []" "ident \<noteq> []"
      using ok kind_no_slash by (auto simp: url_parts_ok_def)
    ultimately show ?thesis by (rule parseUrl_of_captures)
  qed
  have b: "parseUrl s = None"
    if none: "\<forall>pre' origin' host' kind' ident' rest'.
        loose_parts_ok origin' host' kind' ident' rest'
        \<longrightarrow> trim s \<noteq> pre' @ url_of_parts origin' host' kind' ident' rest'"
  proof -
    have "rmatch URL_PATTERN (t', []) = []" if "trim s = pre' @ t'" for pre' t'
    proof (rule ccontr)
      assume "rmatch URL_PATTERN (t', []) \<noteq> []"
      then obtain origin' host' kind' ident' rest' where
        m: "t' = url_of_parts origin' host' kind' ident' rest'"
        "url_parts_ok origin' host' kind' ident' rest'"
        unfolding URL_PATTERN_matches_iff by blast
      then show False using none that ok_is_loose[OF m(2)] by blast
    qed
    then have "re_exec URL_PATTERN (trim s) = None"
      unfolding re_exec_None by blast
    then show ?thesis by (simp add: parseUrl_def)
  qed
  from a b show ?thesis by blast
qed

text \<open>A URL of the loose form begins with \<open>h\<close> or \<open>H\<close> and holds a kind segment between slashes.\<close>

lemma loose_head:
  assumes "loose_parts_ok origin host kind ident rest"
  shows "\<exists>y ys. url_of_parts origin host kind ident rest = y # ys \<and> canonicalize y = 72"
proof -
  have "\<exists>y ys. origin = y # ys \<and> canonicalize y = 72"
    using assms unfolding loose_parts_ok_def
    by (auto simp: ci_eq_Cons str_def canonicalize_def)
  then show ?thesis by (auto simp: url_of_parts_def)
qed

lemma includes_jsI: "s = p @ sep @ q \<Longrightarrow> includes_js s sep"
proof (induction p arbitrary: s)
  case Nil
  show ?case
  proof (cases s)
    case Nil
    then show ?thesis using Nil.prems by simp
  next
    case (Cons a list)
    have "a # list = sep @ q" using Cons Nil.prems by simp
    then have "prefix sep (a # list)" by (rule prefixI)
    then show ?thesis using Cons by simp
  qed
next
  case (Cons x p)
  then show ?case by auto
qed

lemma loose_has_kind:
  assumes "loose_parts_ok origin host kind ident rest"
    and "t = pre @ url_of_parts origin host kind ident rest"
  shows "\<exists>k\<in>set kind_segments.
           includes_js (map canonicalize t) ([47] @ map canonicalize k @ [47])"
proof -
  obtain k where k: "k \<in> set kind_segments" "map canonicalize kind = map canonicalize k"
    using assms(1) by (auto simp: loose_parts_ok_def ci_eq_def)
  have c: "canonicalize 47 = 47" by (simp add: canonicalize_def)
  have "map canonicalize t = map canonicalize (pre @ origin @ host)
      @ ([47] @ map canonicalize k @ [47]) @ map canonicalize (ident @ rest)"
    using assms(2) k(2) c by (simp add: url_of_parts_def str_def)
  then have "includes_js (map canonicalize t) ([47] @ map canonicalize k @ [47])"
    by (rule includes_jsI)
  then show ?thesis using k(1) by blast
qed

text \<open>
  The theorem on three strings: the track URL with a query of the specification; the same
  kind of URL after the letter \<open>x\<close>, where no URL of the loose form begins at the \<open>x\<close>;
  and the URL with the segment \<open>unknown\<close>, which holds no kind segment, so that no URL of
  the loose form ends it.
\<close>

theorem parseUrl_strict_and_loose_witness:
  "parseUrl (str ''https://music.amazon.com/tracks/B079TPJ3G4?ref=x'')
     = Some \<lparr> parsed_type = str ''tracks'', parsed_id = str ''B079TPJ3G4'' \<rparr> \<and>
   parseUrl (str ''xhttps://music.amazon.com/albums/B07A'')
     = Some \<lparr> parsed_type = str ''albums'', parsed_id = str ''B07A'' \<rparr> \<and>
   parseUrl (str ''https://music.amazon.com/unknown/B079TPJ3G4'') = None"
proof -
  have ok1: "strict_parts_ok (str ''https://music.amazon.'') (str ''com'') (str ''tracks'')
      (str ''B079TPJ3G4'') (str ''?ref=x'')"
    by (simp add: strict_parts_ok_def ci_eq_def kind_segments_def plain_rest_def
        isAlnum_def isLineTerminator_def str_def)
  have t1: "trim (str ''https://music.amazon.com/tracks/B079TPJ3G4?ref=x'')
      = [] @ url_of_parts (str ''https://music.amazon.'') (str ''com'') (str ''tracks'')
          (str ''B079TPJ3G4'') (str ''?ref=x'')"
    by (simp add: url_of_parts_def trim_def isWhiteSpace_def str_def)
  have 1: "parseUrl (str ''https://music.amazon.com/tracks/B079TPJ3G4?ref=x'')
     = Some \<lparr> parsed_type = str ''tracks'', parsed_id = str ''B079TPJ3G4'' \<rparr>"
    using parseUrl_strict_and_loose
        [of "str ''https://music.amazon.''" "str ''com''" "str ''tracks''" "str ''B079TPJ3G4''"
            "str ''?ref=x''" "str ''https://music.amazon.com/tracks/B079TPJ3G4?ref=x''" "[]"]
      ok1 t1
    by simp
  have ok2: "strict_parts_ok (str ''https://music.amazon.'') (str ''com'') (str ''albums'')
      (str ''B07A'') []"
    by (simp add: strict_parts_ok_def ci_eq_def kind_segments_def plain_rest_def
        isAlnum_def str_def)
  have t2: "trim (str ''xhttps://music.amazon.com/albums/B07A'')
      = str ''x'' @ url_of_parts (str ''https://music.amazon.'') (str ''com'') (str ''albums'')
          (str ''B07A'') []"
    by (simp add: url_of_parts_def trim_def isWhiteSpace_def str_def)
  have first2: "\<forall>pre' t' origin' host' kind' ident' rest'.
        trim (str ''xhttps://music.amazon.com/albums/B07A'') = pre' @ t' \<and>
        length pre' < length (str ''x'') \<and>
        loose_parts_ok origin' host' kind' ident' rest'
        \<longrightarrow> t' \<noteq> url_of_parts origin' host' kind' ident' rest'"
  proof (intro allI impI notI)
    fix pre' t' origin' host' kind' ident' rest'
    assume h: "trim (str ''xhttps://music.amazon.com/albums/B07A'') = pre' @ t' \<and>
        length pre' < length (str ''x'') \<and>
        loose_parts_ok origin' host' kind' ident' rest'"
      and e: "t' = url_of_parts origin' host' kind' ident' rest'"
    from h have "pre' = []" by (simp add: str_def)
    then have "t' = trim (str ''xhttps://music.amazon.com/albums/B07A'')" using h by simp
    then have "hd t' = 120" by (simp add: trim_def isWhiteSpace_def str_def)
    moreover obtain y ys where "t' = y # ys" "canonicalize y = 72"
      using loose_head[of origin' host' kind' ident' rest'] h e by auto
    ultimately show False by (simp add: canonicalize_def)
  qed
  have 2: "parseUrl (str ''xhttps://music.amazon.com/albums/B07A'')
     = Some \<lparr> parsed_type = str ''albums'', parsed_id = str ''B07A'' \<rparr>"
    using parseUrl_strict_and_loose
        [of "str ''https://music.amazon.''" "str ''com''" "str ''albums''" "str ''B07A''"
            "[]" "str ''xhttps://music.amazon.com/albums/B07A''" "str ''x''"]
      ok2 t2 first2
    by blast
  have nk: "\<forall>k\<in>set kind_segments.
      \<not> includes_js (map canonicalize (trim (str ''https://music.amazon.com/unknown/B079TPJ3G4'')))
          ([47] @ map canonicalize k @ [47])"
    by (simp add: kind_segments_def trim_def isWhiteSpace_def canonicalize_def str_def)
  have none3: "\<forall>pre' origin' host' kind' ident' rest'.
        loose_parts_ok origin' host' kind' ident' rest'
        \<longrightarrow> trim (str ''https://music.amazon.com/unknown/B079TPJ3G4'')
              \<noteq> pre' @ url_of_parts origin' host' kind' ident' rest'"
    using loose_has_kind nk by blast
  have 3: "parseUrl (str ''https://music.amazon.com/unknown/B079TPJ3G4'') = None"
    using parseUrl_strict_and_loose
        [of "[]" "[]" "[]" "[]" "[]" "str ''https://music.amazon.com/unknown/B079TPJ3G4''" "[]"]
      none3
    by blast
  from 1 2 3 show ?thesis by blast
qed

text \<open>
  C1 as it is written fails on a string with a code unit before the scheme: it is not an
  absolute URL of the canonical form, and \<open>parseUrl\<close> returns a reference for it.
\<close>

theorem parseUrl_counterexample:
  "parseUrl (str ''xhttps://music.amazon.com/tracks/B079'')
     = Some \<lparr> parsed_type = str ''tracks'', parsed_id = str ''B079'' \<rparr>"
  by (simp add: parseUrl_def URL_PATTERN_def re_eval)

end
